theory Spec2Isabelle
  imports Complex_Main "HOL-Library.Multiset"
begin

section \<open>Python values, exceptions and the built-in conversions\<close>

text \<open>
  The functions of \<open>core.py\<close> receive untyped metadata values.  A raw value is one
  of the shapes below.  Text is a list of characters with code points below 256; the
  only decimal digits among them are \<open>0\<close> to \<open>9\<close>.

  A Python float is modelled by the rational number it denotes, or by one of the three
  special values.  Arithmetic on finite values is exact: the rounding of a result to 53
  bits and the overflow of a finite result are not modelled, and the two zeros are one
  value.
\<close>

datatype py_error =
  TypeError | ValueError | IndexError | KeyError | OverflowError | ZeroDivisionError
  | UnboundLocalError

datatype pyfloat = Fin rat | PosInf | NegInf | NaN

datatype pyval =
  PNone
  | PInt int
  | PFloat pyfloat
  | PStr string
  | PTuple "pyval list"
  | PList "pyval list"

definition py_bind :: "py_error + 'a \<Rightarrow> ('a \<Rightarrow> py_error + 'b) \<Rightarrow> py_error + 'b" where
  "py_bind m f = (case m of Inl e \<Rightarrow> Inl e | Inr x \<Rightarrow> f x)"

text \<open>\<open>try: ... except Exception: return None\<close> around a body that returns a value or None.\<close>

definition py_except_none :: "py_error + 'a option \<Rightarrow> 'a option" where
  "py_except_none m = (case m of Inl e \<Rightarrow> None | Inr r \<Rightarrow> r)"

subsection \<open>Characters\<close>

definition py_isspace :: "char \<Rightarrow> bool" where
  "py_isspace c \<longleftrightarrow>
     c \<in> set [CHR 0x09, CHR 0x0A, CHR 0x0B, CHR 0x0C, CHR 0x0D, CHR 0x1C, CHR 0x1D,
              CHR 0x1E, CHR 0x1F, CHR 0x20, CHR 0x85, CHR 0xA0]"

definition is_digit :: "char \<Rightarrow> bool" where
  "is_digit c \<longleftrightarrow> c \<in> set ''0123456789''"

definition digit_val :: "char \<Rightarrow> nat" where
  "digit_val c = of_char c - 48"

text \<open>\<open>str.strip()\<close>: whitespace removed at both ends.\<close>

definition py_strip :: "string \<Rightarrow> string" where
  "py_strip s = rev (dropWhile py_isspace (rev (dropWhile py_isspace s)))"

text \<open>\<open>xs[i]\<close> on a tuple or list: a negative index counts from the end.\<close>

definition py_index :: "'a list \<Rightarrow> int \<Rightarrow> py_error + 'a" where
  "py_index xs i =
     (if 0 \<le> i \<and> i < int (length xs) then Inr (xs ! nat i)
      else if i < 0 \<and> - int (length xs) \<le> i then Inr (xs ! nat (int (length xs) + i))
      else Inl IndexError)"

subsection \<open>\<open>int(x)\<close>\<close>

text \<open>
  A digit part is a non-empty run of digits in which single underscores may stand
  between two digits.  \<open>digits_val acc s\<close> reads the rest of a digit part after its
  first digit.
\<close>

fun digits_val :: "nat \<Rightarrow> string \<Rightarrow> nat option" where
  "digits_val acc [] = Some acc"
| "digits_val acc (c # cs) =
     (if is_digit c then digits_val (acc * 10 + digit_val c) cs
      else if c = CHR ''_'' then
        (case cs of
           [] \<Rightarrow> None
         | d # ds \<Rightarrow> if is_digit d then digits_val (acc * 10 + digit_val d) ds else None)
      else None)"

definition digitpart :: "string \<Rightarrow> nat option" where
  "digitpart s =
     (case s of
        [] \<Rightarrow> None
      | c # cs \<Rightarrow> if is_digit c then digits_val (digit_val c) cs else None)"

definition int_of_str :: "string \<Rightarrow> int option" where
  "int_of_str s =
     (case py_strip s of
        [] \<Rightarrow> None
      | c # cs \<Rightarrow>
          if c = CHR ''-'' then map_option (\<lambda>n. - int n) (digitpart cs)
          else if c = CHR ''+'' then map_option int (digitpart cs)
          else map_option int (digitpart (c # cs)))"

definition trunc_rat :: "rat \<Rightarrow> int" where
  "trunc_rat q = (if 0 \<le> q then \<lfloor>q\<rfloor> else \<lceil>q\<rceil>)"

fun py_int :: "pyval \<Rightarrow> py_error + int" where
  "py_int (PInt n) = Inr n"
| "py_int (PFloat (Fin q)) = Inr (trunc_rat q)"
| "py_int (PFloat NaN) = Inl ValueError"
| "py_int (PFloat PosInf) = Inl OverflowError"
| "py_int (PFloat NegInf) = Inl OverflowError"
| "py_int (PStr s) = (case int_of_str s of None \<Rightarrow> Inl ValueError | Some n \<Rightarrow> Inr n)"
| "py_int PNone = Inl TypeError"
| "py_int (PTuple xs) = Inl TypeError"
| "py_int (PList xs) = Inl TypeError"

subsection \<open>\<open>process_iso_value\<close>\<close>

text \<open>
  \<^verbatim>\<open>
  try:
      if isinstance(iso_value, (tuple, list)):
          iso_value = iso_value[0]
      elif isinstance(iso_value, str):
          iso_value = int(iso_value)
      iso_value = int(iso_value)
      return iso_value if 50 <= iso_value <= 512000 else None
  except Exception as e:
      return None
  \<close>
\<close>

definition iso_first :: "pyval \<Rightarrow> py_error + pyval" where
  "iso_first v =
     (case v of
        PTuple xs \<Rightarrow> py_index xs 0
      | PList xs \<Rightarrow> py_index xs 0
      | PStr s \<Rightarrow> py_bind (py_int (PStr s)) (\<lambda>n. Inr (PInt n))
      | _ \<Rightarrow> Inr v)"

definition process_iso_value_try :: "pyval \<Rightarrow> py_error + int option" where
  "process_iso_value_try v =
     py_bind (iso_first v) (\<lambda>x.
     py_bind (py_int x) (\<lambda>n.
     Inr (if 50 \<le> n \<and> n \<le> 512000 then Some n else None)))"

definition process_iso_value :: "pyval \<Rightarrow> int option" where
  "process_iso_value v = py_except_none (process_iso_value_try v)"

subsection \<open>\<open>float(x)\<close>, division and \<open>round\<close>\<close>

text \<open>
  \<open>float\<close> of text: optional sign, then \<open>inf\<close>, \<open>infinity\<close> or \<open>nan\<close> in any
  case, or a decimal number with an optional fraction and an optional exponent.
\<close>

definition lower_char :: "char \<Rightarrow> char" where
  "lower_char c =
     (if 65 \<le> (of_char c :: nat) \<and> (of_char c :: nat) \<le> 90 then char_of (of_char c + 32 :: nat) else c)"

text \<open>The text before the first character satisfying \<open>P\<close>, and the text after it if there is one.\<close>

definition split_first :: "(char \<Rightarrow> bool) \<Rightarrow> string \<Rightarrow> string \<times> string option" where
  "split_first P s =
     (takeWhile (\<lambda>c. \<not> P c) s,
      case dropWhile (\<lambda>c. \<not> P c) s of [] \<Rightarrow> None | c # cs \<Rightarrow> Some cs)"

definition count_digits :: "string \<Rightarrow> nat" where
  "count_digits s = length (filter is_digit s)"

definition exponent_of :: "string option \<Rightarrow> int option" where
  "exponent_of e =
     (case e of
        None \<Rightarrow> Some 0
      | Some [] \<Rightarrow> None
      | Some (c # cs) \<Rightarrow>
          if c = CHR ''-'' then map_option (\<lambda>n. - int n) (digitpart cs)
          else if c = CHR ''+'' then map_option int (digitpart cs)
          else map_option int (digitpart (c # cs)))"

definition mantissa_of :: "string \<Rightarrow> rat option" where
  "mantissa_of m =
     (case split_first (\<lambda>c. c = CHR ''.'') m of
        (ip, None) \<Rightarrow> map_option of_nat (digitpart ip)
      | (ip, Some fp) \<Rightarrow>
          if ip = [] \<and> fp = [] then None
          else
            (case (if ip = [] then Some 0 else digitpart ip,
                   if fp = [] then Some 0 else digitpart fp) of
               (Some i, Some f) \<Rightarrow> Some (of_nat i + of_nat f / 10 ^ count_digits fp)
             | _ \<Rightarrow> None))"

definition pow10 :: "int \<Rightarrow> rat" where
  "pow10 e = (if 0 \<le> e then 10 ^ nat e else 1 / 10 ^ nat (- e))"

definition unsigned_float_of_str :: "string \<Rightarrow> pyfloat option" where
  "unsigned_float_of_str s =
     (let l = map lower_char s in
      if l = ''inf'' \<or> l = ''infinity'' then Some PosInf
      else if l = ''nan'' then Some NaN
      else
        (case split_first (\<lambda>c. c = CHR ''e'' \<or> c = CHR ''E'') s of
           (m, e) \<Rightarrow>
             (case (mantissa_of m, exponent_of e) of
                (Some q, Some x) \<Rightarrow> Some (Fin (q * pow10 x))
              | _ \<Rightarrow> None)))"

fun fneg :: "pyfloat \<Rightarrow> pyfloat" where
  "fneg (Fin q) = Fin (- q)"
| "fneg PosInf = NegInf"
| "fneg NegInf = PosInf"
| "fneg NaN = NaN"

definition float_of_str :: "string \<Rightarrow> pyfloat option" where
  "float_of_str s =
     (case py_strip s of
        [] \<Rightarrow> None
      | c # cs \<Rightarrow>
          if c = CHR ''-'' then map_option fneg (unsigned_float_of_str cs)
          else if c = CHR ''+'' then unsigned_float_of_str cs
          else unsigned_float_of_str (c # cs))"

fun py_float :: "pyval \<Rightarrow> py_error + pyfloat" where
  "py_float (PInt n) = Inr (Fin (of_int n))"
| "py_float (PFloat f) = Inr f"
| "py_float (PStr s) = (case float_of_str s of None \<Rightarrow> Inl ValueError | Some f \<Rightarrow> Inr f)"
| "py_float PNone = Inl TypeError"
| "py_float (PTuple xs) = Inl TypeError"
| "py_float (PList xs) = Inl TypeError"

text \<open>\<open>a / b\<close> on floats.\<close>

fun fsign :: "pyfloat \<Rightarrow> pyfloat \<Rightarrow> pyfloat" where
  "fsign (Fin q) x = (if q < 0 then fneg x else x)"
| "fsign f x = x"

fun py_truediv :: "pyfloat \<Rightarrow> pyfloat \<Rightarrow> py_error + pyfloat" where
  "py_truediv a (Fin r) =
     (if r = 0 then Inl ZeroDivisionError
      else case a of
          Fin q \<Rightarrow> Inr (Fin (q / r))
        | NaN \<Rightarrow> Inr NaN
        | x \<Rightarrow> Inr (fsign (Fin r) x))"
| "py_truediv a NaN = Inr NaN"
| "py_truediv (Fin q) PosInf = Inr (Fin 0)"
| "py_truediv (Fin q) NegInf = Inr (Fin 0)"
| "py_truediv a b = Inr NaN"

text \<open>Rounding to the nearest integer, a tie to the even neighbour.\<close>

definition round_half_even :: "rat \<Rightarrow> int" where
  "round_half_even q =
     (let f = \<lfloor>q\<rfloor>; r = q - of_int f in
      if r < 1 / 2 then f else if 1 / 2 < r then f + 1 else if even f then f else f + 1)"

text \<open>\<open>round(x)\<close>: an integer.\<close>

fun py_round :: "pyfloat \<Rightarrow> py_error + int" where
  "py_round (Fin q) = Inr (round_half_even q)"
| "py_round NaN = Inl ValueError"
| "py_round PosInf = Inl OverflowError"
| "py_round NegInf = Inl OverflowError"

text \<open>\<open>round(x, n)\<close>: a float.\<close>

fun py_round_to :: "nat \<Rightarrow> pyfloat \<Rightarrow> pyfloat" where
  "py_round_to n (Fin q) = Fin (of_int (round_half_even (q * 10 ^ n)) / 10 ^ n)"
| "py_round_to n f = f"

text \<open>\<open>isinstance(v, (float, int)) and math.isnan(v)\<close>\<close>

definition is_nan_number :: "pyval \<Rightarrow> bool" where
  "is_nan_number v = (case v of PFloat NaN \<Rightarrow> True | _ \<Rightarrow> False)"

text \<open>\<open>v == 0\<close>\<close>

definition py_eq_zero :: "pyval \<Rightarrow> bool" where
  "py_eq_zero v = (case v of PInt n \<Rightarrow> n = 0 | PFloat (Fin q) \<Rightarrow> q = 0 | _ \<Rightarrow> False)"

subsection \<open>\<open>process_focal_length\<close>, \<open>process_aperture\<close>, \<open>process_shutter_speed\<close>\<close>

text \<open>
  The three functions share their shape; \<open>process_focal_length\<close> is
  \<^verbatim>\<open>
  try:
      if isinstance(focal_length, (float, int)) and math.isnan(focal_length):
          return None
      if isinstance(focal_length, tuple):
          if any(isinstance(v, (float, int)) and math.isnan(v) for v in focal_length):
              return None
          if focal_length[1] == 0:
              return None
          return round(float(focal_length[0]) / float(focal_length[1]))
      return round(float(focal_length))
  except Exception as e:
      return None
  \<close>
  \<open>tuple_quotient xs\<close> is \<open>float(xs[0]) / float(xs[1])\<close>.
\<close>

definition tuple_quotient :: "pyval list \<Rightarrow> py_error + pyfloat" where
  "tuple_quotient xs =
     py_bind (py_index xs 0) (\<lambda>n.
     py_bind (py_float n) (\<lambda>a.
     py_bind (py_index xs 1) (\<lambda>d.
     py_bind (py_float d) (\<lambda>b.
     py_truediv a b))))"

definition process_focal_length_try :: "pyval \<Rightarrow> py_error + int option" where
  "process_focal_length_try v =
     (if is_nan_number v then Inr None
      else case v of
          PTuple xs \<Rightarrow>
            if list_ex is_nan_number xs then Inr None
            else py_bind (py_index xs 1) (\<lambda>d.
              if py_eq_zero d then Inr None
              else py_bind (tuple_quotient xs) (\<lambda>q.
                   py_bind (py_round q) (\<lambda>r. Inr (Some r))))
        | _ \<Rightarrow> py_bind (py_float v) (\<lambda>a. py_bind (py_round a) (\<lambda>r. Inr (Some r))))"

definition process_focal_length :: "pyval \<Rightarrow> int option" where
  "process_focal_length v = py_except_none (process_focal_length_try v)"

definition process_aperture_try :: "pyval \<Rightarrow> py_error + pyfloat option" where
  "process_aperture_try v =
     (if is_nan_number v then Inr None
      else case v of
          PTuple xs \<Rightarrow>
            if list_ex is_nan_number xs then Inr None
            else py_bind (py_index xs 1) (\<lambda>d.
              if py_eq_zero d then Inr None
              else py_bind (tuple_quotient xs) (\<lambda>q. Inr (Some (py_round_to 1 q))))
        | _ \<Rightarrow> py_bind (py_float v) (\<lambda>a. Inr (Some (py_round_to 1 a))))"

definition process_aperture :: "pyval \<Rightarrow> pyfloat option" where
  "process_aperture v = py_except_none (process_aperture_try v)"

text \<open>
  \<open>process_shutter_speed\<close> first binds \<open>speed\<close> in either branch and rounds it at the end.
\<close>

definition process_shutter_speed_try :: "pyval \<Rightarrow> py_error + pyfloat option" where
  "process_shutter_speed_try v =
     (if is_nan_number v then Inr None
      else py_bind
        (case v of
           PTuple xs \<Rightarrow>
             if list_ex is_nan_number xs then Inr None
             else py_bind (py_index xs 1) (\<lambda>d.
               if py_eq_zero d then Inr None
               else py_bind (tuple_quotient xs) (\<lambda>q. Inr (Some q)))
         | _ \<Rightarrow> py_bind (py_float v) (\<lambda>a. Inr (Some a)))
        (\<lambda>speed. Inr (map_option (py_round_to 4) speed)))"

definition process_shutter_speed :: "pyval \<Rightarrow> pyfloat option" where
  "process_shutter_speed v = py_except_none (process_shutter_speed_try v)"

section \<open>Dates\<close>

subsection \<open>\<open>datetime.strptime\<close>\<close>

text \<open>
  \<open>strptime\<close> turns the format into a regular expression: a directive becomes a
  group of alternatives tried in order, a run of whitespace becomes \<open>\s+\<close>, any other
  character stands for itself.  The expression is matched at the start of the data,
  backtracking over the alternatives; the first match found is taken, and data left
  over after it is an error, as are field values that are no date or time.

  An alternative is a list of character classes, a class the text of its members.
\<close>

record datetime =
  dt_year :: nat
  dt_month :: nat
  dt_day :: nat
  dt_hour :: nat
  dt_minute :: nat
  dt_second :: nat

type_synonym date = "nat \<times> nat \<times> nat"

definition date_of :: "datetime \<Rightarrow> date" where
  "date_of dt = (dt_year dt, dt_month dt, dt_day dt)"

datatype fmt_item = Directive char | Literal char | Spaces

fun compile_format :: "string \<Rightarrow> fmt_item list" where
  "compile_format [] = []"
| "compile_format [c] = (if py_isspace c then [Spaces] else [Literal c])"
| "compile_format (c # d # cs) =
     (if c = CHR ''%'' then Directive d # compile_format cs
      else if py_isspace c then
        (if py_isspace d then compile_format (d # cs) else Spaces # compile_format (d # cs))
      else Literal c # compile_format (d # cs))"

definition directive_regex :: "char \<Rightarrow> string list list option" where
  "directive_regex c =
     (if c = CHR ''Y'' then Some [[''0123456789'', ''0123456789'', ''0123456789'', ''0123456789'']]
      else if c = CHR ''m'' then Some [[''1'', ''012''], [''0'', ''123456789''], [''123456789'']]
      else if c = CHR ''d'' then
        Some [[''3'', ''01''], [''12'', ''0123456789''], [''0'', ''123456789''], [''123456789''],
              ['' '', ''123456789'']]
      else if c = CHR ''H'' then Some [[''2'', ''0123''], [''01'', ''0123456789''], [''0123456789'']]
      else if c = CHR ''M'' then Some [[''012345'', ''0123456789''], [''0123456789'']]
      else if c = CHR ''S'' then
        Some [[''6'', ''01''], [''012345'', ''0123456789''], [''0123456789'']]
      else None)"

fun match_classes :: "string list \<Rightarrow> string \<Rightarrow> (string \<times> string) option" where
  "match_classes [] s = Some ([], s)"
| "match_classes (cl # cls) [] = None"
| "match_classes (cl # cls) (c # s) =
     (if c \<in> set cl then map_option (\<lambda>(m, r). (c # m, r)) (match_classes cls s) else None)"

definition group_alts :: "string list list \<Rightarrow> string \<Rightarrow> (string \<times> string) list" where
  "group_alts alts s = List.map_filter (\<lambda>alt. match_classes alt s) alts"

text \<open>\<open>\s+\<close> is greedy: the longest run first, then shorter ones, never an empty one.\<close>

definition space_alts :: "string \<Rightarrow> string list" where
  "space_alts s = map (\<lambda>k. drop k s) (rev [1 ..< Suc (length (takeWhile py_isspace s))])"

fun regex_match :: "fmt_item list \<Rightarrow> string \<Rightarrow> ((char \<times> string) list \<times> string) list" where
  "regex_match [] s = [([], s)]"
| "regex_match (Literal c # its) s =
     (case s of [] \<Rightarrow> [] | x # r \<Rightarrow> if x = c then regex_match its r else [])"
| "regex_match (Spaces # its) s = concat (map (regex_match its) (space_alts s))"
| "regex_match (Directive d # its) s =
     (case directive_regex d of
        None \<Rightarrow> []
      | Some alts \<Rightarrow>
          concat (map (\<lambda>(m, r). map (\<lambda>(gs, r'). ((d, m) # gs, r')) (regex_match its r))
                      (group_alts alts s)))"

text \<open>\<open>int(found_dict[d])\<close>, and the default when the format has no such directive.\<close>

definition dec_val :: "string \<Rightarrow> nat" where
  "dec_val s = foldl (\<lambda>a c. a * 10 + digit_val c) 0 (filter is_digit s)"

definition field :: "(char \<times> string) list \<Rightarrow> char \<Rightarrow> nat \<Rightarrow> nat" where
  "field gs d dflt = (case map_of gs d of None \<Rightarrow> dflt | Some m \<Rightarrow> dec_val m)"

definition is_leap :: "nat \<Rightarrow> bool" where
  "is_leap y \<longleftrightarrow> y mod 4 = 0 \<and> (y mod 100 \<noteq> 0 \<or> y mod 400 = 0)"

definition days_in_month :: "nat \<Rightarrow> nat \<Rightarrow> nat" where
  "days_in_month y m =
     (if m = 2 then (if is_leap y then 29 else 28)
      else if m \<in> set [4, 6, 9, 11] then 30 else 31)"

definition make_datetime :: "(char \<times> string) list \<Rightarrow> datetime option" where
  "make_datetime gs =
     (let y = field gs CHR ''Y'' 1900; m = field gs CHR ''m'' 1; d = field gs CHR ''d'' 1;
          h = field gs CHR ''H'' 0; mi = field gs CHR ''M'' 0; s = field gs CHR ''S'' 0
      in if 1 \<le> y \<and> y \<le> 9999 \<and> 1 \<le> m \<and> m \<le> 12 \<and> 1 \<le> d \<and> d \<le> days_in_month y m
            \<and> h \<le> 23 \<and> mi \<le> 59 \<and> s \<le> 59
         then Some \<lparr>dt_year = y, dt_month = m, dt_day = d, dt_hour = h, dt_minute = mi,
                    dt_second = s\<rparr>
         else None)"

text \<open>\<open>strptime\<close> on text: \<open>None\<close> is its \<open>ValueError\<close>.\<close>

definition strptime :: "string \<Rightarrow> string \<Rightarrow> datetime option" where
  "strptime data fmt =
     (case regex_match (compile_format fmt) data of
        [] \<Rightarrow> None
      | (gs, rest) # others \<Rightarrow> if rest = [] then make_datetime gs else None)"

text \<open>\<open>datetime.strptime(v, fmt)\<close> on any value: only text is accepted.\<close>

definition py_strptime :: "pyval \<Rightarrow> string \<Rightarrow> py_error + datetime" where
  "py_strptime v fmt =
     (case v of
        PStr s \<Rightarrow> (case strptime s fmt of None \<Rightarrow> Inl ValueError | Some dt \<Rightarrow> Inr dt)
      | _ \<Rightarrow> Inl TypeError)"

subsection \<open>\<open>try_parse_date\<close>\<close>

text \<open>
  \<^verbatim>\<open>
  if not date_string or not isinstance(date_string, str):
      return None
  date_string = date_string.replace('\x00', '').strip()
  for fmt in date_formats:
      try:
          return datetime.strptime(date_string, fmt)
      except ValueError:
          continue
  return None
  \<close>
\<close>

definition date_formats :: "string list" where
  "date_formats =
     [''%Y:%m:%d %H:%M:%S'', ''%Y-%m-%d %H:%M:%S'', ''%Y%m%d_%H%M%S'', ''%Y_%m_%d %H:%M:%S'',
      ''%Y%m%d%H%M%S'']"

fun py_truthy :: "pyval \<Rightarrow> bool" where
  "py_truthy PNone = False"
| "py_truthy (PInt n) = (n \<noteq> 0)"
| "py_truthy (PFloat f) = (f \<noteq> Fin 0)"
| "py_truthy (PStr s) = (s \<noteq> [])"
| "py_truthy (PTuple xs) = (xs \<noteq> [])"
| "py_truthy (PList xs) = (xs \<noteq> [])"

definition clean_date_string :: "string \<Rightarrow> string" where
  "clean_date_string s = py_strip (filter (\<lambda>c. c \<noteq> CHR 0x00) s)"

fun try_formats :: "string \<Rightarrow> string list \<Rightarrow> datetime option" where
  "try_formats s [] = None"
| "try_formats s (fmt # fmts) =
     (case strptime s fmt of Some dt \<Rightarrow> Some dt | None \<Rightarrow> try_formats s fmts)"

definition try_parse_date :: "pyval \<Rightarrow> datetime option" where
  "try_parse_date v =
     (if \<not> py_truthy v then None
      else case v of
          PStr s \<Rightarrow> try_formats (clean_date_string s) date_formats
        | _ \<Rightarrow> None)"

section \<open>Aggregation\<close>

subsection \<open>Dictionaries and the accumulators of \<open>process_folder\<close>\<close>

text \<open>
  A dictionary is the list of its entries in insertion order, with one entry per key.
  Keys are compared by equality of the model's values.  (Python keeps one entry per
  not-a-number object; the model keeps one entry for the not-a-number key.)
\<close>

type_synonym ('k, 'v) dict = "('k \<times> 'v) list"

definition dict_get :: "('k, 'v) dict \<Rightarrow> 'k \<Rightarrow> 'v \<Rightarrow> 'v" where
  "dict_get d k dflt = (case map_of d k of None \<Rightarrow> dflt | Some v \<Rightarrow> v)"

fun dict_set :: "('k, 'v) dict \<Rightarrow> 'k \<Rightarrow> 'v \<Rightarrow> ('k, 'v) dict" where
  "dict_set [] k v = [(k, v)]"
| "dict_set ((k', v') # d) k v = (if k' = k then (k', v) # d else (k', v') # dict_set d k v)"

text \<open>\<open>d[k] = d.get(k, 0) + 1\<close>\<close>

definition dict_incr :: "('k, nat) dict \<Rightarrow> 'k \<Rightarrow> ('k, nat) dict" where
  "dict_incr d k = dict_set d k (dict_get d k 0 + 1)"

text \<open>The record of one photo, as \<open>get_exif_data\<close> returns it: tag names with raw values.\<close>

type_synonym exif = "(string, pyval) dict"

record hour_settings =
  hs_apertures :: "pyfloat list"
  hs_shutter_speeds :: "pyfloat list"
  hs_isos :: "int list"

record agg =
  focal_lengths :: "int list"
  dates :: "(date, nat) dict"
  hours :: "(nat, nat) dict"
  iso :: "(int, nat) dict"
  apertures :: "(pyfloat, nat) dict"
  shutter_speeds :: "(pyfloat, nat) dict"
  hourly_settings :: "hour_settings list"

text \<open>\<open>hourly_settings\<close> has the keys \<open>0, ..., 23\<close>; it is the list of its values.\<close>

definition init_agg :: agg where
  "init_agg =
     \<lparr>focal_lengths = [], dates = [], hours = [], iso = [], apertures = [],
      shutter_speeds = [],
      hourly_settings = replicate 24 \<lparr>hs_apertures = [], hs_shutter_speeds = [], hs_isos = []\<rparr>\<rparr>"

text \<open>
  \<open>hourly_settings[h][...].append(v)\<close>: the lookup of a missing hour is a \<open>KeyError\<close>.
\<close>

definition update_hour ::
  "hour_settings list \<Rightarrow> nat \<Rightarrow> (hour_settings \<Rightarrow> hour_settings) \<Rightarrow> py_error + hour_settings list" where
  "update_hour hs h f = (if h < length hs then Inr (hs[h := f (hs ! h)]) else Inl KeyError)"

text \<open>\<open>try: ... except ValueError: pass\<close> around a block that updates the accumulators.\<close>

definition py_except_value_error :: "py_error + 'a \<Rightarrow> 'a \<Rightarrow> py_error + 'a" where
  "py_except_value_error m unchanged =
     (case m of
        Inl e \<Rightarrow> if e = ValueError then Inr unchanged else Inl e
      | Inr x \<Rightarrow> Inr x)"

subsection \<open>One photo\<close>

text \<open>
  The five blocks of the loop body of \<open>process_folder\<close>, in order.  The blocks for
  ISO, aperture and shutter speed parse the raw date again, with the one format
  \<^verbatim>\<open>'%Y:%m:%d %H:%M:%S'\<close> and catching \<open>ValueError\<close> only:
  \<^verbatim>\<open>
  if 'ISOSpeedRatings' in exif_data:
      iso_value = process_iso_value(exif_data['ISOSpeedRatings'])
      if iso_value:
          iso[iso_value] = iso.get(iso_value, 0) + 1
          if 'DateTimeOriginal' in exif_data:
              try:
                  dt = datetime.strptime(exif_data['DateTimeOriginal'], '%Y:%m:%d %H:%M:%S')
                  hourly_settings[dt.hour]['isos'].append(iso_value)
              except ValueError as e:
                  pass
  \<close>
\<close>

definition strict_format :: string where
  "strict_format = ''%Y:%m:%d %H:%M:%S''"

definition add_focal_length :: "exif \<Rightarrow> agg \<Rightarrow> agg" where
  "add_focal_length r a =
     (case map_of r ''FocalLength'' of
        None \<Rightarrow> a
      | Some raw \<Rightarrow>
          (case process_focal_length raw of
             None \<Rightarrow> a
           | Some fl \<Rightarrow> if fl \<noteq> 0 then a\<lparr>focal_lengths := focal_lengths a @ [fl]\<rparr> else a))"

definition add_date :: "exif \<Rightarrow> agg \<Rightarrow> agg" where
  "add_date r a =
     (case map_of r ''DateTimeOriginal'' of
        None \<Rightarrow> a
      | Some raw \<Rightarrow>
          (case try_parse_date raw of
             None \<Rightarrow> a
           | Some dt \<Rightarrow>
               a\<lparr>dates := dict_incr (dates a) (date_of dt),
                 hours := dict_incr (hours a) (dt_hour dt)\<rparr>))"

definition hourly_append ::
  "exif \<Rightarrow> (hour_settings \<Rightarrow> hour_settings) \<Rightarrow> agg \<Rightarrow> py_error + agg" where
  "hourly_append r f a =
     (case map_of r ''DateTimeOriginal'' of
        None \<Rightarrow> Inr a
      | Some raw \<Rightarrow>
          py_except_value_error
            (py_bind (py_strptime raw strict_format) (\<lambda>dt.
             py_bind (update_hour (hourly_settings a) (dt_hour dt) f) (\<lambda>hs.
             Inr (a\<lparr>hourly_settings := hs\<rparr>))))
            a)"

definition add_iso :: "exif \<Rightarrow> agg \<Rightarrow> py_error + agg" where
  "add_iso r a =
     (case map_of r ''ISOSpeedRatings'' of
        None \<Rightarrow> Inr a
      | Some raw \<Rightarrow>
          (case process_iso_value raw of
             None \<Rightarrow> Inr a
           | Some v \<Rightarrow>
               if v \<noteq> 0 then
                 hourly_append r (\<lambda>b. b\<lparr>hs_isos := hs_isos b @ [v]\<rparr>)
                   (a\<lparr>iso := dict_incr (iso a) v\<rparr>)
               else Inr a))"

definition add_aperture :: "exif \<Rightarrow> agg \<Rightarrow> py_error + agg" where
  "add_aperture r a =
     (case map_of r ''FNumber'' of
        None \<Rightarrow> Inr a
      | Some raw \<Rightarrow>
          (case process_aperture raw of
             None \<Rightarrow> Inr a
           | Some v \<Rightarrow>
               if v \<noteq> Fin 0 then
                 hourly_append r (\<lambda>b. b\<lparr>hs_apertures := hs_apertures b @ [v]\<rparr>)
                   (a\<lparr>apertures := dict_incr (apertures a) v\<rparr>)
               else Inr a))"

definition add_shutter_speed :: "exif \<Rightarrow> agg \<Rightarrow> py_error + agg" where
  "add_shutter_speed r a =
     (case map_of r ''ExposureTime'' of
        None \<Rightarrow> Inr a
      | Some raw \<Rightarrow>
          (case process_shutter_speed raw of
             None \<Rightarrow> Inr a
           | Some v \<Rightarrow>
               if v \<noteq> Fin 0 then
                 hourly_append r (\<lambda>b. b\<lparr>hs_shutter_speeds := hs_shutter_speeds b @ [v]\<rparr>)
                   (a\<lparr>shutter_speeds := dict_incr (shutter_speeds a) v\<rparr>)
               else Inr a))"

text \<open>The loop body: a photo without metadata is skipped.\<close>

definition process_photo :: "exif \<Rightarrow> agg \<Rightarrow> py_error + agg" where
  "process_photo r a =
     (if r = [] then Inr a
      else py_bind (add_iso r (add_date r (add_focal_length r a))) (\<lambda>a1.
           py_bind (add_aperture r a1) (\<lambda>a2.
           add_shutter_speed r a2)))"

subsection \<open>\<open>process_folder\<close>\<close>

text \<open>
  The walk over the folder and the reading of each file are outside the model:
  \<open>process_folder\<close> takes the records of the image files in the order of the walk.
  An exception in the body ends the loop and leaves \<open>process_folder\<close>.
\<close>

fun process_photos :: "exif list \<Rightarrow> agg \<Rightarrow> py_error + agg" where
  "process_photos [] a = Inr a"
| "process_photos (r # rs) a =
     (case process_photo r a of Inl e \<Rightarrow> Inl e | Inr a' \<Rightarrow> process_photos rs a')"

definition process_folder :: "exif list \<Rightarrow> py_error + agg" where
  "process_folder rs = process_photos rs init_agg"

section \<open>Statistics of \<open>analyze_folder\<close>\<close>

text \<open>
  \<^verbatim>\<open>
  total_photos = sum(dates.values())
  valid_focal_lengths = [f for f in focal_lengths if f]
  focal_length_median = 0
  if valid_focal_lengths:
      valid_focal_lengths.sort()
      mid = len(valid_focal_lengths) // 2
      if len(valid_focal_lengths) % 2 == 0:
          focal_length_median = (valid_focal_lengths[mid-1] + valid_focal_lengths[mid]) / 2
      else:
          focal_length_median = valid_focal_lengths[mid]
  num_days = len(dates)
  daily_average = total_photos / num_days if num_days > 0 else 0
  \<close>
  The division of two integers is a float.
\<close>

definition total_photos :: "agg \<Rightarrow> nat" where
  "total_photos a = sum_list (map snd (dates a))"

definition focal_length_median :: "int list \<Rightarrow> py_error + pyval" where
  "focal_length_median fls =
     (let valid = sort (filter (\<lambda>f. f \<noteq> 0) fls); mid = length valid div 2 in
      if valid = [] then Inr (PInt 0)
      else if length valid mod 2 = 0 then
        py_bind (py_index valid (int mid - 1)) (\<lambda>x.
        py_bind (py_index valid (int mid)) (\<lambda>y.
        Inr (PFloat (Fin (of_int (x + y) / 2)))))
      else py_bind (py_index valid (int mid)) (\<lambda>x. Inr (PInt x)))"

definition daily_average :: "agg \<Rightarrow> pyval" where
  "daily_average a =
     (let num_days = length (dates a) in
      if 0 < num_days then PFloat (Fin (of_nat (total_photos a) / of_nat num_days))
      else PInt 0)"

record summary =
  sm_total_photos :: nat
  sm_focal_length_median :: pyval
  sm_daily_average :: pyval

text \<open>
  \<open>analyze_folder\<close> on the records of an existing folder.  The rendering of the
  charts is outside the model.
\<close>

definition analyze_folder :: "exif list \<Rightarrow> py_error + agg \<times> summary" where
  "analyze_folder rs =
     py_bind (process_folder rs) (\<lambda>a.
     py_bind (focal_length_median (focal_lengths a)) (\<lambda>m.
     Inr (a, \<lparr>sm_total_photos = total_photos a, sm_focal_length_median = m,
               sm_daily_average = daily_average a\<rparr>)))"

section \<open>The split point of the focal-length histogram\<close>


definition bin_edges :: "rat \<Rightarrow> rat \<Rightarrow> nat \<Rightarrow> rat list" where
  "bin_edges lo hi n = map (\<lambda>i. lo + of_nat i * ((hi - lo) / of_nat n)) [0 ..< n] @ [hi]"





section \<open>Definitions that follow the words of the specification\<close>




text \<open>
  \<open>focalLengthMedian\<close>: the samples that are not zero, sorted ascending; the middle
  element for an odd count, the average of the two middle elements for an even count,
  0 for no sample.
\<close>

definition spec_focal_length_median :: "int list \<Rightarrow> pyval" where
  "spec_focal_length_median samples =
     (let v = sort (filter (\<lambda>f. f \<noteq> 0) samples); n = length v in
      if n = 0 then PInt 0
      else if odd n then PInt (v ! (n div 2))
      else PFloat (Fin (of_int (v ! (n div 2 - 1) + v ! (n div 2)) / 2)))"

text \<open>
  What one photo contributes, in the words of the specification: the normalized value
  of each field when it is present (a value equal to zero counts as absent, as in the
  loop body), the capture date under the fallback chain, and the date under the strict
  canonical format, read from the raw text as it is.
\<close>

definition photo_focal_length :: "exif \<Rightarrow> int option" where
  "photo_focal_length r =
     (case map_of r ''FocalLength'' of
        None \<Rightarrow> None
      | Some raw \<Rightarrow>
          (case process_focal_length raw of
             None \<Rightarrow> None
           | Some v \<Rightarrow> if v = 0 then None else Some v))"

definition photo_date :: "exif \<Rightarrow> datetime option" where
  "photo_date r =
     (case map_of r ''DateTimeOriginal'' of None \<Rightarrow> None | Some raw \<Rightarrow> try_parse_date raw)"

definition photo_iso :: "exif \<Rightarrow> int option" where
  "photo_iso r =
     (case map_of r ''ISOSpeedRatings'' of
        None \<Rightarrow> None
      | Some raw \<Rightarrow>
          (case process_iso_value raw of
             None \<Rightarrow> None
           | Some v \<Rightarrow> if v = 0 then None else Some v))"

definition photo_aperture :: "exif \<Rightarrow> pyfloat option" where
  "photo_aperture r =
     (case map_of r ''FNumber'' of
        None \<Rightarrow> None
      | Some raw \<Rightarrow>
          (case process_aperture raw of
             None \<Rightarrow> None
           | Some v \<Rightarrow> if v = Fin 0 then None else Some v))"

definition photo_shutter_speed :: "exif \<Rightarrow> pyfloat option" where
  "photo_shutter_speed r =
     (case map_of r ''ExposureTime'' of
        None \<Rightarrow> None
      | Some raw \<Rightarrow>
          (case process_shutter_speed raw of
             None \<Rightarrow> None
           | Some v \<Rightarrow> if v = Fin 0 then None else Some v))"

definition photo_strict_date :: "exif \<Rightarrow> datetime option" where
  "photo_strict_date r =
     (case map_of r ''DateTimeOriginal'' of
        None \<Rightarrow> None
      | Some raw \<Rightarrow> (case raw of PStr s \<Rightarrow> strptime s strict_format | _ \<Rightarrow> None))"

text \<open>The raw date of the photo is present and is not text.\<close>

definition date_not_text :: "exif \<Rightarrow> bool" where
  "date_not_text r =
     (case map_of r ''DateTimeOriginal'' of
        None \<Rightarrow> False
      | Some raw \<Rightarrow> (case raw of PStr s \<Rightarrow> False | _ \<Rightarrow> True))"

text \<open>The photo has an ISO, aperture or shutter-speed value to put into an hourly bucket.\<close>

definition has_hourly_value :: "exif \<Rightarrow> bool" where
  "has_hourly_value r \<longleftrightarrow>
     \<not> (photo_iso r = None \<and> photo_aperture r = None \<and> photo_shutter_speed r = None)"

definition opt_list :: "'a option \<Rightarrow> 'a list" where
  "opt_list x = (case x of None \<Rightarrow> [] | Some v \<Rightarrow> [v])"

definition incr_opt :: "('k, nat) dict \<Rightarrow> 'k option \<Rightarrow> ('k, nat) dict" where
  "incr_opt d x = (case x of None \<Rightarrow> d | Some k \<Rightarrow> dict_incr d k)"

definition add_to_bucket :: "exif \<Rightarrow> hour_settings \<Rightarrow> hour_settings" where
  "add_to_bucket r b =
     \<lparr>hs_apertures = hs_apertures b @ opt_list (photo_aperture r),
      hs_shutter_speeds = hs_shutter_speeds b @ opt_list (photo_shutter_speed r),
      hs_isos = hs_isos b @ opt_list (photo_iso r)\<rparr>"

text \<open>The accumulators after one photo is merged into them.\<close>

definition merge_photo :: "exif \<Rightarrow> agg \<Rightarrow> agg" where
  "merge_photo r a =
     \<lparr>focal_lengths = focal_lengths a @ opt_list (photo_focal_length r),
      dates = incr_opt (dates a) (map_option date_of (photo_date r)),
      hours = incr_opt (hours a) (map_option dt_hour (photo_date r)),
      iso = incr_opt (iso a) (photo_iso r),
      apertures = incr_opt (apertures a) (photo_aperture r),
      shutter_speeds = incr_opt (shutter_speeds a) (photo_shutter_speed r),
      hourly_settings =
        (case photo_strict_date r of
           None \<Rightarrow> hourly_settings a
         | Some dt \<Rightarrow>
             (hourly_settings a)
               [dt_hour dt := add_to_bucket r (hourly_settings a ! dt_hour dt)])\<rparr>"

text \<open>
  The update of the bucket of the photo's strict hour by \<open>f\<close>; no update when the
  raw date does not parse under the strict format.
\<close>

definition bucket_step :: "exif \<Rightarrow> (hour_settings \<Rightarrow> hour_settings) \<Rightarrow> hour_settings list \<Rightarrow> hour_settings list" where
  "bucket_step r f hs =
     (case photo_strict_date r of None \<Rightarrow> hs | Some dt \<Rightarrow> hs[dt_hour dt := f (hs ! dt_hour dt)])"

text \<open>The photo makes the loop body raise: its raw date is not text and it has a bucket value.\<close>

definition photo_raises :: "exif \<Rightarrow> bool" where
  "photo_raises r \<longleftrightarrow> date_not_text r \<and> has_hourly_value r"

text \<open>The count of a key in a frequency map, 0 for a key that is not in it.\<close>

definition dict_count :: "('k, nat) dict \<Rightarrow> 'k \<Rightarrow> nat" where
  "dict_count d k = dict_get d k 0"

text \<open>A frequency map has one entry per key, and no entry with count 0.\<close>

definition freq_ok :: "('k, nat) dict \<Rightarrow> bool" where
  "freq_ok d \<longleftrightarrow> distinct (map fst d) \<and> 0 \<notin> snd ` set d"

text \<open>The values that a list of photos puts into the bucket of hour \<open>h\<close>.\<close>

definition bucket_values :: "(exif \<Rightarrow> 'a option) \<Rightarrow> nat \<Rightarrow> exif list \<Rightarrow> 'a list" where
  "bucket_values g h rs =
     concat (map (\<lambda>r. if map_option dt_hour (photo_strict_date r) = Some h then opt_list (g r)
                       else []) rs)"

text \<open>The characters that a format item can match.\<close>

definition item_chars :: "fmt_item \<Rightarrow> char set" where
  "item_chars it =
     (case it of
        Literal c \<Rightarrow> {c}
      | Spaces \<Rightarrow> {c. py_isspace c}
      | Directive d \<Rightarrow>
          (case directive_regex d of
             None \<Rightarrow> {}
           | Some alts \<Rightarrow> (\<Union>alt \<in> set alts. \<Union>cl \<in> set alt. set cl)))"

text \<open>
  Sample photos: one with a date in the strict format (photo A of the end-to-end
  scenario of the specification), one with a date that only the fallback chain parses,
  one with an ISO value that is no number (photo B of the scenario), and the date-time
  of the first two.
\<close>

definition photo_strict :: exif where
  "photo_strict =
     [(''ISOSpeedRatings'', PInt 100), (''FNumber'', PTuple [PInt 28, PInt 10]),
      (''DateTimeOriginal'', PStr ''2023:01:01 08:00:00'')]"

definition photo_fallback :: exif where
  "photo_fallback =
     [(''ISOSpeedRatings'', PInt 100), (''DateTimeOriginal'', PStr ''2023-01-01 08:00:00'')]"


definition new_year_8 :: datetime where
  "new_year_8 =
     \<lparr>dt_year = 2023, dt_month = 1, dt_day = 1, dt_hour = 8, dt_minute = 0, dt_second = 0\<rparr>"

text \<open>A sample photo whose focal length, aperture and shutter speed all normalize to zero.\<close>

definition photo_zero :: exif where
  "photo_zero =
     [(''FocalLength'', PTuple [PInt 1, PInt 3]), (''FNumber'', PTuple [PInt 1, PInt 100]),
      (''ExposureTime'', PTuple [PInt 1, PInt 32000]),
      (''DateTimeOriginal'', PStr ''2023:01:01 08:00:00'')]"

text \<open>A sample photo taken on the next day, with a date and nothing else.\<close>

definition photo_next_day :: exif where
  "photo_next_day = [(''DateTimeOriginal'', PStr ''2023:01:02 09:30:00'')]"

definition next_day_930 :: datetime where
  "next_day_930 =
     \<lparr>dt_year = 2023, dt_month = 1, dt_day = 2, dt_hour = 9, dt_minute = 30, dt_second = 0\<rparr>"



section \<open>The value normalizers\<close>

subsection \<open>ISO\<close>



subsection \<open>Focal length, aperture, shutter speed\<close>


lemma round_half_even_of_int [simp]: "round_half_even (of_int n) = n"
  by (simp add: round_half_even_def)











section \<open>Dates\<close>



lemma clean_date_string_Nil [simp]: "clean_date_string [] = []"
  by (simp add: clean_date_string_def py_strip_def)



section \<open>Summary statistics\<close>

subsection \<open>The median focal length\<close>

lemma focal_length_median_refines:
  "focal_length_median samples = Inr (spec_focal_length_median samples)"
proof -
  define v where "v = sort (filter (\<lambda>f. f \<noteq> 0) samples)"
  show ?thesis
  proof (cases "v = []")
    case True
    then show ?thesis
      by (simp add: focal_length_median_def spec_focal_length_median_def v_def[symmetric] Let_def)
  next
    case False
    then have pos: "0 < length v" by simp
    show ?thesis
    proof (cases "even (length v)")
      case True
      have two: "2 \<le> length v"
      proof -
        from True obtain b where b: "length v = 2 * b" by (auto elim: evenE)
        with pos have "0 < b" by simp
        with b show ?thesis by simp
      qed
      then have m1: "1 \<le> length v div 2" and m2: "length v div 2 < length v" by auto
      have i1: "py_index v (int (length v div 2) - 1) = Inr (v ! (length v div 2 - 1))"
        using m1 m2 by (simp add: py_index_def nat_diff_distrib')
      have i2: "py_index v (int (length v div 2)) = Inr (v ! (length v div 2))"
        using m2 by (simp add: py_index_def)
      show ?thesis
        using True False i1 i2
        by (simp add: focal_length_median_def spec_focal_length_median_def v_def[symmetric]
            Let_def py_bind_def even_iff_mod_2_eq_zero)
    next
      case False
      have m2: "length v div 2 < length v" using pos by auto
      have i2: "py_index v (int (length v div 2)) = Inr (v ! (length v div 2))"
        using m2 by (simp add: py_index_def)
      show ?thesis
        using False \<open>v \<noteq> []\<close> i2
        by (simp add: focal_length_median_def spec_focal_length_median_def v_def[symmetric]
            Let_def py_bind_def even_iff_mod_2_eq_zero)
    qed
  qed
qed

lemma sorted_count_below:
  fixes v :: "int list"
  assumes "sorted v" "i < length v"
  shows "length (filter (\<lambda>x. x < v ! i) v) \<le> i"
proof -
  have "{j. j < length v \<and> v ! j < v ! i} \<subseteq> {..<i}"
  proof
    fix j assume "j \<in> {j. j < length v \<and> v ! j < v ! i}"
    then have j: "j < length v" "v ! j < v ! i" by auto
    have "j < i"
    proof (rule ccontr)
      assume "\<not> j < i"
      then have "i \<le> j" by simp
      with assms j(1) have "v ! i \<le> v ! j" by (simp add: sorted_nth_mono)
      with j(2) show False by simp
    qed
    then show "j \<in> {..<i}" by simp
  qed
  then have "card {j. j < length v \<and> v ! j < v ! i} \<le> card {..<i}"
    by (intro card_mono) auto
  then show ?thesis by (simp add: length_filter_conv_card)
qed

lemma sorted_count_above:
  fixes v :: "int list"
  assumes "sorted v" "i < length v"
  shows "length (filter (\<lambda>x. v ! i < x) v) \<le> length v - Suc i"
proof -
  have "{j. j < length v \<and> v ! i < v ! j} \<subseteq> {Suc i ..< length v}"
  proof
    fix j assume "j \<in> {j. j < length v \<and> v ! i < v ! j}"
    then have j: "j < length v" "v ! i < v ! j" by auto
    have "i < j"
    proof (rule ccontr)
      assume "\<not> i < j"
      then have "j \<le> i" by simp
      with assms have "v ! j \<le> v ! i" by (simp add: sorted_nth_mono)
      with j(2) show False by simp
    qed
    with j(1) show "j \<in> {Suc i ..< length v}" by simp
  qed
  then have "card {j. j < length v \<and> v ! i < v ! j} \<le> card {Suc i ..< length v}"
    by (intro card_mono) auto
  then show ?thesis by (simp add: length_filter_conv_card)
qed

text \<open>
  C8.  The median of \<open>analyze_folder\<close> keeps the samples that are not zero and sorts
  them ascending; it is the middle element when their number is odd, the average of the
  two middle elements when it is even, and 0 when there is none.  At most half of the
  kept samples lie below the middle element and at most half above it.  The median of
  \<open>[24, 35, 50]\<close> is 35, of \<open>[24, 35]\<close> it is 29.5, of \<open>[]\<close> it is 0.
\<close>

theorem focal_length_median_spec:
  "focal_length_median samples = Inr (spec_focal_length_median samples)
   \<and> sorted (sort (filter (\<lambda>f. f \<noteq> 0) samples))
   \<and> mset (sort (filter (\<lambda>f. f \<noteq> 0) samples)) = filter_mset (\<lambda>f. f \<noteq> 0) (mset samples)
   \<and> (filter (\<lambda>f. f \<noteq> 0) samples \<noteq> [] \<longrightarrow>
        (let v = sort (filter (\<lambda>f. f \<noteq> 0) samples); m = v ! (length v div 2) in
         length (filter (\<lambda>x. x < m) v) \<le> length v div 2
         \<and> length (filter (\<lambda>x. m < x) v) \<le> length v div 2))
   \<and> focal_length_median [24, 35, 50] = Inr (PInt 35)
   \<and> focal_length_median [24, 35] = Inr (PFloat (Fin (59 / 2)))
   \<and> focal_length_median [] = Inr (PInt 0)"
proof -
  have a: "focal_length_median [24, 35, 50] = Inr (PInt 35)" by code_simp
  have b: "focal_length_median [24, 35] = Inr (PFloat (Fin (59 / 2)))" by code_simp
  have c: "focal_length_median [] = Inr (PInt 0)" by code_simp
  have d: "length (filter (\<lambda>x. x < v ! (length v div 2)) v) \<le> length v div 2
           \<and> length (filter (\<lambda>x. v ! (length v div 2) < x) v) \<le> length v div 2"
    if "v = sort (filter (\<lambda>f. f \<noteq> 0) samples)" "filter (\<lambda>f. f \<noteq> 0) samples \<noteq> []" for v
  proof -
    from that have s: "sorted v" by simp
    from that have "length v = length (filter (\<lambda>f. f \<noteq> 0) samples)" by simp
    with that(2) have n: "v \<noteq> []" by auto
    then have i: "length v div 2 < length v" by simp
    have "length (filter (\<lambda>x. v ! (length v div 2) < x) v) \<le> length v - Suc (length v div 2)"
      using s i by (rule sorted_count_above)
    moreover have "length v - Suc (length v div 2) \<le> length v div 2" by linarith
    ultimately show ?thesis using sorted_count_below[OF s i] by linarith
  qed
  show ?thesis using a b c d focal_length_median_refines by (simp add: Let_def)
qed

text \<open>The theorem at \<open>[50, 0, 24, 35]\<close>.\<close>

theorem focal_length_median_spec_witness:
  "filter (\<lambda>f. f \<noteq> 0) [50, 0, 24, 35 :: int] \<noteq> []
   \<and> focal_length_median [50, 0, 24, 35] = Inr (PInt 35)
   \<and> length (filter (\<lambda>x. x < 35) [24, 35, 50 :: int]) \<le> 1
   \<and> length (filter (\<lambda>x. 35 < x) [24, 35, 50 :: int]) \<le> 1"
  using focal_length_median_spec[of "[50, 0, 24, 35]"]
  by (simp add: spec_focal_length_median_def)

section \<open>The loop body of \<open>process_folder\<close>\<close>

text \<open>
  With the 24 hourly buckets in place, the loop body either raises \<open>TypeError\<close> (the raw
  date is not text and a bucket value is present) or merges the photo.
\<close>

lemma make_datetime_hour: "make_datetime gs = Some dt \<Longrightarrow> dt_hour dt < 24"
  by (auto simp: make_datetime_def Let_def split: if_splits)

lemma strptime_hour: "strptime s fmt = Some dt \<Longrightarrow> dt_hour dt < 24"
  by (auto simp: strptime_def make_datetime_hour split: list.splits if_splits)

lemma hourly_append_char:
  assumes "length (hourly_settings a) = 24"
  shows "hourly_append r f a =
     (if date_not_text r then Inl TypeError
      else Inr (a\<lparr>hourly_settings :=
                    (case photo_strict_date r of
                       None \<Rightarrow> hourly_settings a
                     | Some dt \<Rightarrow> (hourly_settings a)[dt_hour dt := f (hourly_settings a ! dt_hour dt)])\<rparr>))"
proof (cases "map_of r ''DateTimeOriginal''")
  case None
  then show ?thesis
    by (simp add: hourly_append_def date_not_text_def photo_strict_date_def)
next
  case (Some raw)
  show ?thesis
  proof (cases raw)
    case (PStr s)
    show ?thesis
    proof (cases "strptime s strict_format")
      case None
      with Some PStr show ?thesis
        by (simp add: hourly_append_def date_not_text_def photo_strict_date_def
            py_strptime_def py_bind_def py_except_value_error_def)
    next
      case (Some dt)
      with strptime_hour assms have "dt_hour dt < length (hourly_settings a)" by fastforce
      with Some \<open>map_of r ''DateTimeOriginal'' = Some raw\<close> PStr show ?thesis
        by (simp add: hourly_append_def date_not_text_def photo_strict_date_def
            py_strptime_def py_bind_def py_except_value_error_def update_hour_def)
    qed
  qed (use Some in \<open>simp_all add: hourly_append_def date_not_text_def photo_strict_date_def
            py_strptime_def py_bind_def py_except_value_error_def\<close>)
qed

lemma add_focal_length_char:
  "add_focal_length r a = a\<lparr>focal_lengths := focal_lengths a @ opt_list (photo_focal_length r)\<rparr>"
  by (simp add: add_focal_length_def photo_focal_length_def opt_list_def split: option.splits)

lemma add_date_char:
  "add_date r a =
     a\<lparr>dates := incr_opt (dates a) (map_option date_of (photo_date r)),
       hours := incr_opt (hours a) (map_option dt_hour (photo_date r))\<rparr>"
  by (simp add: add_date_def photo_date_def incr_opt_def split: option.splits)

lemma length_bucket_step [simp]: "length (bucket_step r f hs) = length hs"
  by (simp add: bucket_step_def split: option.splits)

lemma add_iso_char:
  assumes "length (hourly_settings a) = 24"
  shows "add_iso r a =
     (case photo_iso r of
        None \<Rightarrow> Inr a
      | Some v \<Rightarrow>
          if date_not_text r then Inl TypeError
          else Inr (a\<lparr>iso := dict_incr (iso a) v,
                      hourly_settings :=
                        bucket_step r (\<lambda>b. b\<lparr>hs_isos := hs_isos b @ [v]\<rparr>) (hourly_settings a)\<rparr>))"
  using assms
  by (simp add: add_iso_def photo_iso_def hourly_append_char bucket_step_def
      split: option.splits)

lemma add_aperture_char:
  assumes "length (hourly_settings a) = 24"
  shows "add_aperture r a =
     (case photo_aperture r of
        None \<Rightarrow> Inr a
      | Some v \<Rightarrow>
          if date_not_text r then Inl TypeError
          else Inr (a\<lparr>apertures := dict_incr (apertures a) v,
                      hourly_settings :=
                        bucket_step r (\<lambda>b. b\<lparr>hs_apertures := hs_apertures b @ [v]\<rparr>) (hourly_settings a)\<rparr>))"
  using assms
  by (simp add: add_aperture_def photo_aperture_def hourly_append_char bucket_step_def
      split: option.splits)

lemma add_shutter_speed_char:
  assumes "length (hourly_settings a) = 24"
  shows "add_shutter_speed r a =
     (case photo_shutter_speed r of
        None \<Rightarrow> Inr a
      | Some v \<Rightarrow>
          if date_not_text r then Inl TypeError
          else Inr (a\<lparr>shutter_speeds := dict_incr (shutter_speeds a) v,
                      hourly_settings :=
                        bucket_step r (\<lambda>b. b\<lparr>hs_shutter_speeds := hs_shutter_speeds b @ [v]\<rparr>) (hourly_settings a)\<rparr>))"
  using assms
  by (simp add: add_shutter_speed_def photo_shutter_speed_def hourly_append_char bucket_step_def
      split: option.splits)

lemma photo_empty:
  "photo_focal_length [] = None" "photo_date [] = None" "photo_iso [] = None"
  "photo_aperture [] = None" "photo_shutter_speed [] = None" "photo_strict_date [] = None"
  "date_not_text [] = False"
  by (simp_all add: photo_focal_length_def photo_date_def photo_iso_def photo_aperture_def
      photo_shutter_speed_def photo_strict_date_def date_not_text_def)

lemma merge_photo_empty: "merge_photo [] a = a"
  by (simp add: merge_photo_def photo_empty opt_list_def incr_opt_def)




lemma bucket_step_compose:
  "bucket_step r g (bucket_step r f hs) = bucket_step r (\<lambda>b. g (f b)) hs"
proof (cases "photo_strict_date r")
  case None
  then show ?thesis by (simp add: bucket_step_def)
next
  case (Some dt)
  show ?thesis
  proof (cases "dt_hour dt < length hs")
    case True
    with Some show ?thesis by (simp add: bucket_step_def)
  next
    case False
    then have "length hs \<le> dt_hour dt" by simp
    with Some show ?thesis by (simp add: bucket_step_def list_update_beyond)
  qed
qed

lemma bucket_step_id: "(\<And>b. f b = b) \<Longrightarrow> bucket_step r f hs = hs"
  by (simp add: bucket_step_def split: option.splits)

lemma add_iso_ok:
  assumes "length (hourly_settings a) = 24" "\<not> date_not_text r"
  shows "add_iso r a =
     Inr (a\<lparr>iso := incr_opt (iso a) (photo_iso r),
            hourly_settings :=
              bucket_step r (\<lambda>b. b\<lparr>hs_isos := hs_isos b @ opt_list (photo_iso r)\<rparr>)
                (hourly_settings a)\<rparr>)"
  using assms
  by (cases "photo_iso r") (simp_all add: add_iso_char incr_opt_def opt_list_def bucket_step_id)

lemma add_aperture_ok:
  assumes "length (hourly_settings a) = 24" "\<not> date_not_text r"
  shows "add_aperture r a =
     Inr (a\<lparr>apertures := incr_opt (apertures a) (photo_aperture r),
            hourly_settings :=
              bucket_step r (\<lambda>b. b\<lparr>hs_apertures := hs_apertures b @ opt_list (photo_aperture r)\<rparr>)
                (hourly_settings a)\<rparr>)"
  using assms
  by (cases "photo_aperture r")
     (simp_all add: add_aperture_char incr_opt_def opt_list_def bucket_step_id)

lemma add_shutter_speed_ok:
  assumes "length (hourly_settings a) = 24" "\<not> date_not_text r"
  shows "add_shutter_speed r a =
     Inr (a\<lparr>shutter_speeds := incr_opt (shutter_speeds a) (photo_shutter_speed r),
            hourly_settings :=
              bucket_step r
                (\<lambda>b. b\<lparr>hs_shutter_speeds := hs_shutter_speeds b @ opt_list (photo_shutter_speed r)\<rparr>)
                (hourly_settings a)\<rparr>)"
  using assms
  by (cases "photo_shutter_speed r")
     (simp_all add: add_shutter_speed_char incr_opt_def opt_list_def bucket_step_id)

lemma merge_photo_bucket_step:
  "merge_photo r a =
     \<lparr>focal_lengths = focal_lengths a @ opt_list (photo_focal_length r),
      dates = incr_opt (dates a) (map_option date_of (photo_date r)),
      hours = incr_opt (hours a) (map_option dt_hour (photo_date r)),
      iso = incr_opt (iso a) (photo_iso r),
      apertures = incr_opt (apertures a) (photo_aperture r),
      shutter_speeds = incr_opt (shutter_speeds a) (photo_shutter_speed r),
      hourly_settings = bucket_step r (add_to_bucket r) (hourly_settings a)\<rparr>"
  by (simp add: merge_photo_def bucket_step_def)

lemma process_photo_ok:
  assumes len: "length (hourly_settings a) = 24" and nt: "\<not> date_not_text r"
  shows "process_photo r a = Inr (merge_photo r a)"
proof (cases "r = []")
  case True
  then show ?thesis by (simp add: process_photo_def merge_photo_empty)
next
  case False
  define a0 where "a0 = add_date r (add_focal_length r a)"
  define a1 where "a1 = a0\<lparr>iso := incr_opt (iso a0) (photo_iso r),
            hourly_settings :=
              bucket_step r (\<lambda>b. b\<lparr>hs_isos := hs_isos b @ opt_list (photo_iso r)\<rparr>)
                (hourly_settings a0)\<rparr>"
  define a2 where "a2 = a1\<lparr>apertures := incr_opt (apertures a1) (photo_aperture r),
            hourly_settings :=
              bucket_step r (\<lambda>b. b\<lparr>hs_apertures := hs_apertures b @ opt_list (photo_aperture r)\<rparr>)
                (hourly_settings a1)\<rparr>"
  define a3 where "a3 = a2\<lparr>shutter_speeds := incr_opt (shutter_speeds a2) (photo_shutter_speed r),
            hourly_settings :=
              bucket_step r
                (\<lambda>b. b\<lparr>hs_shutter_speeds := hs_shutter_speeds b @ opt_list (photo_shutter_speed r)\<rparr>)
                (hourly_settings a2)\<rparr>"
  have l0: "length (hourly_settings a0) = 24"
    using len by (simp add: a0_def add_focal_length_char add_date_char)
  then have l1: "length (hourly_settings a1) = 24" by (simp add: a1_def)
  then have l2: "length (hourly_settings a2) = 24" by (simp add: a2_def)
  have s1: "add_iso r a0 = Inr a1" using add_iso_ok[OF l0 nt] by (simp add: a1_def)
  have s2: "add_aperture r a1 = Inr a2" using add_aperture_ok[OF l1 nt] by (simp add: a2_def)
  have s3: "add_shutter_speed r a2 = Inr a3"
    using add_shutter_speed_ok[OF l2 nt] by (simp add: a3_def)
  have run: "process_photo r a = Inr a3"
    using False s1 s2 s3 by (simp add: process_photo_def py_bind_def a0_def)
  have f: "(\<lambda>b. b\<lparr>hs_isos := hs_isos b @ opt_list (photo_iso r),
                  hs_apertures := hs_apertures b @ opt_list (photo_aperture r),
                  hs_shutter_speeds := hs_shutter_speeds b @ opt_list (photo_shutter_speed r)\<rparr>)
           = add_to_bucket r"
    by (rule ext) (simp add: add_to_bucket_def)
  have "a3 = merge_photo r a"
    unfolding merge_photo_bucket_step a3_def a2_def a1_def a0_def
    by (simp add: add_focal_length_char add_date_char bucket_step_compose f)
  with run show ?thesis by simp
qed


lemma date_not_text_no_date:
  assumes "date_not_text r"
  shows "photo_strict_date r = None" and "photo_date r = None"
  using assms
  by (auto simp: date_not_text_def photo_strict_date_def photo_date_def try_parse_date_def
      split: option.splits pyval.splits)

lemma process_photo_not_text:
  assumes len: "length (hourly_settings a) = 24" and nt: "date_not_text r"
  shows "process_photo r a = (if has_hourly_value r then Inl TypeError else Inr (merge_photo r a))"
proof -
  from nt have ne: "r \<noteq> []" by (auto simp: date_not_text_def)
  define a0 where "a0 = add_date r (add_focal_length r a)"
  have l0: "length (hourly_settings a0) = 24"
    using len by (simp add: a0_def add_focal_length_char add_date_char)
  have i: "add_iso r a0 = (case photo_iso r of None \<Rightarrow> Inr a0 | Some v \<Rightarrow> Inl TypeError)"
    using nt by (simp add: add_iso_char[OF l0] split: option.splits)
  have p: "add_aperture r a0 = (case photo_aperture r of None \<Rightarrow> Inr a0 | Some v \<Rightarrow> Inl TypeError)"
    using nt by (simp add: add_aperture_char[OF l0] split: option.splits)
  have s: "add_shutter_speed r a0 =
             (case photo_shutter_speed r of None \<Rightarrow> Inr a0 | Some v \<Rightarrow> Inl TypeError)"
    using nt by (simp add: add_shutter_speed_char[OF l0] split: option.splits)
  have m: "merge_photo r a = a0"
    if "photo_iso r = None" "photo_aperture r = None" "photo_shutter_speed r = None"
    using that date_not_text_no_date[OF nt]
    by (simp add: merge_photo_def a0_def add_focal_length_char add_date_char incr_opt_def)
  show ?thesis
  proof (cases "photo_iso r")
    case (Some v)
    then show ?thesis
      using ne i by (simp add: process_photo_def py_bind_def has_hourly_value_def a0_def)
  next
    case n1: None
    show ?thesis
    proof (cases "photo_aperture r")
      case (Some v)
      then show ?thesis
        using ne i p n1 by (simp add: process_photo_def py_bind_def has_hourly_value_def a0_def)
    next
      case n2: None
      show ?thesis
      proof (cases "photo_shutter_speed r")
        case (Some v)
        then show ?thesis
          using ne i p s n1 n2
          by (simp add: process_photo_def py_bind_def has_hourly_value_def a0_def)
      next
        case n3: None
        then show ?thesis
          using ne i p s n1 n2 m[OF n1 n2 n3]
          by (simp add: process_photo_def py_bind_def has_hourly_value_def a0_def)
      qed
    qed
  qed
qed

lemma process_photo_char:
  assumes "length (hourly_settings a) = 24"
  shows "process_photo r a =
     (if date_not_text r \<and> has_hourly_value r then Inl TypeError else Inr (merge_photo r a))"
  using process_photo_ok[OF assms] process_photo_not_text[OF assms]
  by (cases "date_not_text r") simp_all

lemma length_hourly_merge_photo [simp]:
  "length (hourly_settings (merge_photo r a)) = length (hourly_settings a)"
  by (simp add: merge_photo_def split: option.splits)

subsection \<open>Frequency maps\<close>

lemma map_of_dict_set: "map_of (dict_set d k v) = (map_of d)(k \<mapsto> v)"
  by (induction d) (auto simp: fun_eq_iff)

lemma keys_dict_set: "fst ` set (dict_set d k v) = insert k (fst ` set d)"
proof (induction d)
  case Nil
  then show ?case by simp
next
  case (Cons p d)
  obtain k' v' where p: "p = (k', v')" by (cases p)
  show ?case
  proof (cases "k' = k")
    case True
    with p show ?thesis by simp
  next
    case False
    with p Cons show ?thesis by (simp add: insert_commute)
  qed
qed

lemma distinct_dict_set: "distinct (map fst d) \<Longrightarrow> distinct (map fst (dict_set d k v))"
proof (induction d)
  case Nil
  then show ?case by simp
next
  case (Cons p d)
  have "fst ` set (dict_set d k v) = insert k (fst ` set d)" by (rule keys_dict_set)
  with Cons show ?case by (cases p) auto
qed

lemma values_dict_set: "snd ` set (dict_set d k v) \<subseteq> insert v (snd ` set d)"
proof (induction d)
  case Nil
  then show ?case by simp
next
  case (Cons p d)
  obtain k' v' where p: "p = (k', v')" by (cases p)
  show ?case
  proof (cases "k' = k")
    case True
    with p show ?thesis by auto
  next
    case False
    with p Cons show ?thesis by auto
  qed
qed

lemma dict_count_incr:
  "dict_count (dict_incr d k) k' = dict_count d k' + (if k' = k then 1 else 0)"
  by (simp add: dict_count_def dict_incr_def dict_get_def map_of_dict_set)

lemma freq_ok_incr: "freq_ok d \<Longrightarrow> freq_ok (dict_incr d k)"
  using values_dict_set[of d k "dict_get d k 0 + 1"]
  by (auto simp: freq_ok_def dict_incr_def distinct_dict_set)

lemma freq_ok_incr_opt: "freq_ok d \<Longrightarrow> freq_ok (incr_opt d x)"
  by (simp add: incr_opt_def freq_ok_incr split: option.splits)

lemma keys_incr_opt: "fst ` set (incr_opt d x) = fst ` set d \<union> set_option x"
  by (auto simp: incr_opt_def dict_incr_def keys_dict_set split: option.splits)

lemma sum_dict_set:
  "sum_list (map snd (dict_set d k (dict_get d k 0 + 1))) = Suc (sum_list (map snd d))"
proof (induction d)
  case Nil
  then show ?case by (simp add: dict_get_def)
next
  case (Cons p d)
  obtain k' v' where p: "p = (k', v')" by (cases p)
  show ?case
  proof (cases "k' = k")
    case True
    with p show ?thesis by (simp add: dict_get_def)
  next
    case False
    then have "dict_get (p # d) k 0 = dict_get d k 0" using p by (simp add: dict_get_def)
    with False p Cons show ?thesis by simp
  qed
qed

lemma sum_incr_opt:
  "sum_list (map snd (incr_opt d x)) = sum_list (map snd d) + (if x = None then 0 else 1)"
  using sum_dict_set[of d] by (simp add: incr_opt_def dict_incr_def split: option.splits)

lemma dict_count_incr_opt:
  "dict_count (incr_opt d x) k = dict_count d k + (if x = Some k then 1 else 0)"
  by (auto simp: incr_opt_def dict_count_incr split: option.splits)

lemma freq_ok_map_of:
  assumes "freq_ok d"
  shows "map_of d k = (if dict_count d k = 0 then None else Some (dict_count d k))"
proof (cases "map_of d k")
  case None
  then show ?thesis by (simp add: dict_count_def dict_get_def)
next
  case (Some c)
  then have "(k, c) \<in> set d" by (rule map_of_SomeD)
  then have "c \<in> snd ` set d" by force
  with assms have "c \<noteq> 0" unfolding freq_ok_def by metis
  with Some show ?thesis by (simp add: dict_count_def dict_get_def)
qed

lemma freq_ok_keys:
  assumes "freq_ok d"
  shows "fst ` set d = {k. dict_count d k \<noteq> 0}"
proof -
  have "k \<in> fst ` set d \<longleftrightarrow> dict_count d k \<noteq> 0" for k
  proof (cases "dict_count d k = 0")
    case True
    with freq_ok_map_of[OF assms, of k] have "map_of d k = None" by simp
    with True show ?thesis by (simp add: map_of_eq_None_iff)
  next
    case False
    with freq_ok_map_of[OF assms, of k] have "map_of d k \<noteq> None" by simp
    with False show ?thesis by (simp add: map_of_eq_None_iff)
  qed
  then show ?thesis by auto
qed


subsection \<open>The loop\<close>

lemma merge_photo_fields [simp]:
  "focal_lengths (merge_photo r a) = focal_lengths a @ opt_list (photo_focal_length r)"
  "dates (merge_photo r a) = incr_opt (dates a) (map_option date_of (photo_date r))"
  "hours (merge_photo r a) = incr_opt (hours a) (map_option dt_hour (photo_date r))"
  "iso (merge_photo r a) = incr_opt (iso a) (photo_iso r)"
  "apertures (merge_photo r a) = incr_opt (apertures a) (photo_aperture r)"
  "shutter_speeds (merge_photo r a) = incr_opt (shutter_speeds a) (photo_shutter_speed r)"
  by (simp_all add: merge_photo_def)

lemma merge_photo_bucket:
  assumes "h < length (hourly_settings a)"
  shows "hourly_settings (merge_photo r a) ! h =
     (if map_option dt_hour (photo_strict_date r) = Some h
      then add_to_bucket r (hourly_settings a ! h) else hourly_settings a ! h)"
  using assms by (auto simp: merge_photo_def nth_list_update split: option.splits)

lemma process_photos_char:
  assumes "length (hourly_settings a) = 24"
  shows "process_photos rs a =
     (if list_ex photo_raises rs then Inl TypeError else Inr (fold merge_photo rs a))"
  using assms
proof (induction rs arbitrary: a)
  case Nil
  then show ?case by simp
next
  case (Cons r rs)
  show ?case
  proof (cases "photo_raises r")
    case True
    with Cons.prems show ?thesis by (simp add: process_photo_char photo_raises_def)
  next
    case False
    have "length (hourly_settings (merge_photo r a)) = 24" using Cons.prems by simp
    from Cons.IH[OF this] False Cons.prems show ?thesis
      by (auto simp: process_photo_char photo_raises_def)
  qed
qed

lemma length_init_agg: "length (hourly_settings init_agg) = 24"
  by (simp add: init_agg_def)

lemma process_folder_char:
  "process_folder rs =
     (if list_ex photo_raises rs then Inl TypeError else Inr (fold merge_photo rs init_agg))"
  by (simp add: process_folder_def process_photos_char length_init_agg)

lemma fold_length_hourly [simp]:
  "length (hourly_settings (fold merge_photo rs a)) = length (hourly_settings a)"
  by (induction rs arbitrary: a) simp_all

lemma fold_focal_lengths:
  "focal_lengths (fold merge_photo rs a) =
     focal_lengths a @ concat (map (\<lambda>r. opt_list (photo_focal_length r)) rs)"
  by (induction rs arbitrary: a) simp_all

lemma fold_freq_ok:
  "freq_ok (dates a) \<Longrightarrow> freq_ok (dates (fold merge_photo rs a))"
  "freq_ok (hours a) \<Longrightarrow> freq_ok (hours (fold merge_photo rs a))"
  "freq_ok (iso a) \<Longrightarrow> freq_ok (iso (fold merge_photo rs a))"
  "freq_ok (apertures a) \<Longrightarrow> freq_ok (apertures (fold merge_photo rs a))"
  "freq_ok (shutter_speeds a) \<Longrightarrow> freq_ok (shutter_speeds (fold merge_photo rs a))"
  by (induction rs arbitrary: a) (simp_all add: freq_ok_incr_opt)

lemma fold_dict_count:
  "dict_count (dates (fold merge_photo rs a)) d =
     dict_count (dates a) d + length (filter (\<lambda>r. map_option date_of (photo_date r) = Some d) rs)"
  "dict_count (hours (fold merge_photo rs a)) h =
     dict_count (hours a) h + length (filter (\<lambda>r. map_option dt_hour (photo_date r) = Some h) rs)"
  "dict_count (iso (fold merge_photo rs a)) i =
     dict_count (iso a) i + length (filter (\<lambda>r. photo_iso r = Some i) rs)"
  "dict_count (apertures (fold merge_photo rs a)) x =
     dict_count (apertures a) x + length (filter (\<lambda>r. photo_aperture r = Some x) rs)"
  "dict_count (shutter_speeds (fold merge_photo rs a)) x =
     dict_count (shutter_speeds a) x + length (filter (\<lambda>r. photo_shutter_speed r = Some x) rs)"
  by (induction rs arbitrary: a) (simp_all add: dict_count_incr_opt)

lemma fold_sum_dates:
  "sum_list (map snd (dates (fold merge_photo rs a))) =
     sum_list (map snd (dates a)) + length (filter (\<lambda>r. photo_date r \<noteq> None) rs)"
  by (induction rs arbitrary: a) (simp_all add: sum_incr_opt)

lemma fold_keys_dates:
  "fst ` set (dates (fold merge_photo rs a)) =
     fst ` set (dates a) \<union> {date_of dt | dt r. r \<in> set rs \<and> photo_date r = Some dt}"
proof (induction rs arbitrary: a)
  case Nil
  then show ?case by simp
next
  case (Cons r rs)
  have "fst ` set (dates (merge_photo r a)) = fst ` set (dates a) \<union> set_option (map_option date_of (photo_date r))"
    by (simp add: keys_incr_opt)
  moreover have "set_option (map_option date_of (photo_date r)) = {date_of dt | dt. photo_date r = Some dt}"
    by (cases "photo_date r") auto
  ultimately show ?case using Cons[of "merge_photo r a"] by auto
qed

lemma fold_bucket:
  assumes "h < length (hourly_settings a)"
  shows "hs_isos (hourly_settings (fold merge_photo rs a) ! h) =
           hs_isos (hourly_settings a ! h) @ bucket_values photo_iso h rs"
    and "hs_apertures (hourly_settings (fold merge_photo rs a) ! h) =
           hs_apertures (hourly_settings a ! h) @ bucket_values photo_aperture h rs"
    and "hs_shutter_speeds (hourly_settings (fold merge_photo rs a) ! h) =
           hs_shutter_speeds (hourly_settings a ! h) @ bucket_values photo_shutter_speed h rs"
  using assms
  by (induction rs arbitrary: a)
     (auto simp: bucket_values_def merge_photo_bucket add_to_bucket_def)

section \<open>The strict format and the fallback chain\<close>

text \<open>
  Text that parses under the strict format has no null character and no whitespace at
  its ends, so the fallback chain, which tries the same format first, parses it to the
  same date-time.
\<close>

lemma match_classes_sound:
  "match_classes cls s = Some (m, r) \<Longrightarrow> s = m @ r \<and> list_all2 (\<lambda>c cl. c \<in> set cl) m cls"
proof (induction cls s arbitrary: m r rule: match_classes.induct)
  case (1 s)
  then show ?case by simp
next
  case (2 cl cls)
  then show ?case by simp
next
  case (3 cl cls c s)
  from "3.prems" obtain m' where c: "c \<in> set cl" and m': "match_classes cls s = Some (m', r)"
    and m: "m = c # m'"
    by (auto split: if_splits)
  from "3.IH"[OF c m'] m c show ?case by simp
qed

lemma group_alts_sound:
  assumes "(m, r) \<in> set (group_alts alts s)"
  shows "\<exists>alt \<in> set alts. s = m @ r \<and> list_all2 (\<lambda>c cl. c \<in> set cl) m alt"
proof -
  have "\<exists>alt \<in> set alts. match_classes alt s = Some p" if "p \<in> set (List.map_filter (\<lambda>alt. match_classes alt s) alts)" for p
    using that by (induction alts) (auto split: option.splits)
  with assms obtain alt where "alt \<in> set alts" "match_classes alt s = Some (m, r)"
    unfolding group_alts_def by blast
  with match_classes_sound show ?thesis by blast
qed

lemma list_all2_chars:
  assumes "list_all2 (\<lambda>c cl. c \<in> set cl) m alt"
  shows "set m \<subseteq> (\<Union>cl \<in> set alt. set cl)"
  using assms by (induction rule: list_all2_induct) auto

lemma space_alts_sound:
  assumes "r \<in> set (space_alts s)"
  shows "\<exists>pre. s = pre @ r \<and> pre \<noteq> [] \<and> set pre \<subseteq> {c. py_isspace c}"
proof -
  from assms obtain k where k: "1 \<le> k" "k \<le> length (takeWhile py_isspace s)" and r: "r = drop k s"
    by (auto simp: space_alts_def)
  have "take k s = take k (takeWhile py_isspace s @ dropWhile py_isspace s)" by simp
  also have "\<dots> = take k (takeWhile py_isspace s)" using k(2) by (simp del: takeWhile_dropWhile_id)
  finally have "take k s = take k (takeWhile py_isspace s)" .
  then have "set (take k s) \<subseteq> set (takeWhile py_isspace s)" by (metis set_take_subset)
  then have "set (take k s) \<subseteq> {c. py_isspace c}" by (auto dest: set_takeWhileD)
  moreover have "take k s \<noteq> []" using k by (cases s) auto
  moreover have "s = take k s @ r" using r by simp
  ultimately show ?thesis by blast
qed


lemma directive_regex_nonempty: "directive_regex d = Some alts \<Longrightarrow> [] \<notin> set alts"
  by (auto simp: directive_regex_def split: if_splits)

lemma regex_match_step:
  assumes "(gs, rest) \<in> set (regex_match (it # its) s)"
  shows "\<exists>pre r' gs'. s = pre @ r' \<and> pre \<noteq> [] \<and> set pre \<subseteq> item_chars it
           \<and> (gs', rest) \<in> set (regex_match its r')"
proof (cases it)
  case (Literal c)
  with assms obtain r' where "s = c # r'" "(gs, rest) \<in> set (regex_match its r')"
    by (auto split: list.splits if_splits)
  then have "s = [c] @ r' \<and> [c] \<noteq> [] \<and> set [c] \<subseteq> item_chars it
      \<and> (gs, rest) \<in> set (regex_match its r')"
    using Literal by (simp add: item_chars_def)
  then show ?thesis by blast
next
  case Spaces
  with assms obtain r' where r': "r' \<in> set (space_alts s)" "(gs, rest) \<in> set (regex_match its r')"
    by auto
  from space_alts_sound[OF r'(1)] obtain pre where
    "s = pre @ r'" "pre \<noteq> []" "set pre \<subseteq> {c. py_isspace c}" by blast
  with r'(2) Spaces show ?thesis unfolding item_chars_def by auto
next
  case (Directive d)
  with assms obtain alts where alts: "directive_regex d = Some alts"
    by (cases "directive_regex d") auto
  with assms Directive obtain m r' gs' where
    mr: "(m, r') \<in> set (group_alts alts s)" and g: "(gs', rest) \<in> set (regex_match its r')"
    by auto
  from group_alts_sound[OF mr] obtain alt where
    alt: "alt \<in> set alts" "s = m @ r'" "list_all2 (\<lambda>c cl. c \<in> set cl) m alt" by blast
  from alt(1) directive_regex_nonempty[OF alts] have "alt \<noteq> []" by auto
  with alt(3) have "m \<noteq> []" by auto
  moreover have "set m \<subseteq> item_chars it"
    using list_all2_chars[OF alt(3)] alt(1) alts Directive by (auto simp: item_chars_def)
  ultimately show ?thesis using alt(2) g by blast
qed

lemma regex_match_consumes:
  "(gs, rest) \<in> set (regex_match its s) \<Longrightarrow>
   \<exists>pre. s = pre @ rest \<and> set pre \<subseteq> (\<Union>it \<in> set its. item_chars it)"
proof (induction its arbitrary: s gs)
  case Nil
  then show ?case by simp
next
  case (Cons it its)
  from regex_match_step[OF Cons.prems] obtain pre r' gs' where
    s: "s = pre @ r'" "set pre \<subseteq> item_chars it" "(gs', rest) \<in> set (regex_match its r')"
    by blast
  from Cons.IH[OF s(3)] obtain pre' where
    "r' = pre' @ rest" "set pre' \<subseteq> (\<Union>it \<in> set its. item_chars it)" by blast
  with s have "s = (pre @ pre') @ rest \<and> set (pre @ pre') \<subseteq> (\<Union>it \<in> set (it # its). item_chars it)"
    by auto
  then show ?case by blast
qed

lemma regex_match_first:
  assumes "(gs, rest) \<in> set (regex_match (it # its) s)"
  shows "s \<noteq> [] \<and> hd s \<in> item_chars it"
proof -
  from regex_match_step[OF assms] obtain pre r' where
    "s = pre @ r'" "pre \<noteq> []" "set pre \<subseteq> item_chars it" by blast
  then show ?thesis by (cases pre) auto
qed

lemma regex_match_last:
  "(gs, []) \<in> set (regex_match its s) \<Longrightarrow> its \<noteq> [] \<Longrightarrow>
   s \<noteq> [] \<and> last s \<in> item_chars (last its)"
proof (induction its arbitrary: s gs)
  case Nil
  then show ?case by simp
next
  case (Cons it its)
  from regex_match_step[OF Cons.prems(1)] obtain pre r' gs' where
    s: "s = pre @ r'" "pre \<noteq> []" "set pre \<subseteq> item_chars it" "(gs', []) \<in> set (regex_match its r')"
    by blast
  show ?case
  proof (cases "its = []")
    case True
    with s(4) have "r' = []" by simp
    with s True show ?thesis using last_in_set[of pre] by auto
  next
    case False
    from Cons.IH[OF s(4) False] s(1) False show ?thesis by simp
  qed
qed

lemma strict_items:
  "compile_format strict_format =
     [Directive CHR ''Y'', Literal CHR '':'', Directive CHR ''m'', Literal CHR '':'',
      Directive CHR ''d'', Spaces, Directive CHR ''H'', Literal CHR '':'', Directive CHR ''M'',
      Literal CHR '':'', Directive CHR ''S'']"
  by (simp add: strict_format_def py_isspace_def)

lemma strict_chars:
  assumes "c \<in> (\<Union>it \<in> set (compile_format strict_format). item_chars it)"
  shows "c \<noteq> CHR 0x00"
  using assms unfolding strict_items
  by (auto simp: item_chars_def directive_regex_def py_isspace_def)

lemma digit_chars:
  assumes "c \<in> item_chars (Directive CHR ''Y'') \<or> c \<in> item_chars (Directive CHR ''S'')"
  shows "\<not> py_isspace c"
  using assms by (auto simp: item_chars_def directive_regex_def py_isspace_def)

lemma py_strip_id:
  assumes "s \<noteq> []" "\<not> py_isspace (hd s)" "\<not> py_isspace (last s)"
  shows "py_strip s = s"
proof -
  from assms(1,2) have a: "dropWhile py_isspace s = s" by (cases s) auto
  from assms(1,3) have "dropWhile py_isspace (rev s) = rev s"
    by (cases "rev s") (auto simp: hd_rev)
  with a show ?thesis by (simp add: py_strip_def)
qed

lemma strict_clean:
  assumes "strptime s strict_format = Some dt"
  shows "clean_date_string s = s" and "s \<noteq> []"
proof -
  from assms obtain gs others where
    m: "regex_match (compile_format strict_format) s = (gs, []) # others"
    by (auto simp: strptime_def split: list.splits if_splits)
  then have mem: "(gs, []) \<in> set (regex_match (compile_format strict_format) s)" by simp
  from regex_match_consumes[OF mem] strict_chars have nz: "CHR 0x00 \<notin> set s" by auto
  from mem have f: "s \<noteq> [] \<and> hd s \<in> item_chars (Directive CHR ''Y'')"
    unfolding strict_items by (rule regex_match_first)
  from regex_match_last[OF mem] have l: "last s \<in> item_chars (Directive CHR ''S'')"
    by (simp add: strict_items)
  from f show "s \<noteq> []" by simp
  from nz have "filter (\<lambda>c. c \<noteq> CHR 0x00) s = s" by (auto simp: filter_id_conv)
  moreover have "py_strip s = s" using f l digit_chars by (intro py_strip_id) auto
  ultimately show "clean_date_string s = s" by (simp add: clean_date_string_def)
qed

lemma strict_implies_fallback:
  assumes "strptime s strict_format = Some dt"
  shows "try_parse_date (PStr s) = Some dt"
  using assms strict_clean[OF assms]
  by (simp add: try_parse_date_def date_formats_def strict_format_def)

lemma photo_strict_implies_date:
  "photo_strict_date r = Some dt \<Longrightarrow> photo_date r = Some dt"
  by (auto simp: photo_strict_date_def photo_date_def strict_implies_fallback
      split: option.splits pyval.splits)

section \<open>Hourly buckets\<close>

lemma hour_of_strict: "photo_strict_date r = Some dt \<Longrightarrow> dt_hour dt < 24"
  by (auto simp: photo_strict_date_def strptime_hour split: option.splits pyval.splits)

text \<open>
  C2.  With the 24 hourly buckets in place, one pass of the loop body either raises
  (only when the raw date is not text, which parses under no format) or appends the
  photo's normalized ISO, aperture and shutter-speed values to the bucket of hour \<open>h\<close>
  exactly when the raw date parses under the strict format \<^verbatim>\<open>%Y:%m:%d %H:%M:%S\<close> with
  hour \<open>h\<close>, and to no other bucket.  The daily and hourly counts follow the fallback
  chain instead.  The strict parse is the stricter one: a date that parses under it
  parses to the same date-time under the fallback chain, and a photo whose date parses
  under the fallback chain only is counted and leaves every bucket unchanged.
\<close>

theorem hourly_bucket_strict_format:
  assumes "length (hourly_settings a) = 24"
  shows "(case process_photo r a of
            Inl e \<Rightarrow> e = TypeError \<and> date_not_text r \<and> photo_strict_date r = None
          | Inr a' \<Rightarrow>
              (\<forall>h < 24.
                 hs_isos (hourly_settings a' ! h) =
                   hs_isos (hourly_settings a ! h) @
                     (if map_option dt_hour (photo_strict_date r) = Some h
                      then opt_list (photo_iso r) else [])
               \<and> hs_apertures (hourly_settings a' ! h) =
                   hs_apertures (hourly_settings a ! h) @
                     (if map_option dt_hour (photo_strict_date r) = Some h
                      then opt_list (photo_aperture r) else [])
               \<and> hs_shutter_speeds (hourly_settings a' ! h) =
                   hs_shutter_speeds (hourly_settings a ! h) @
                     (if map_option dt_hour (photo_strict_date r) = Some h
                      then opt_list (photo_shutter_speed r) else []))
              \<and> dates a' = incr_opt (dates a) (map_option date_of (photo_date r))
              \<and> hours a' = incr_opt (hours a) (map_option dt_hour (photo_date r))
              \<and> (photo_strict_date r = None \<longrightarrow> hourly_settings a' = hourly_settings a))
         \<and> (\<forall>dt. photo_strict_date r = Some dt \<longrightarrow> photo_date r = Some dt \<and> dt_hour dt < 24)"
proof -
  have strict: "\<forall>dt. photo_strict_date r = Some dt \<longrightarrow> photo_date r = Some dt \<and> dt_hour dt < 24"
    using photo_strict_implies_date hour_of_strict by blast
  show ?thesis
  proof (cases "date_not_text r \<and> has_hourly_value r")
    case True
    with assms date_not_text_no_date(1)[of r] strict show ?thesis
      by (simp add: process_photo_char)
  next
    case False
    with assms have run: "process_photo r a = Inr (merge_photo r a)"
      by (simp add: process_photo_char)
    have b: "hourly_settings (merge_photo r a) ! h =
       (if map_option dt_hour (photo_strict_date r) = Some h
        then add_to_bucket r (hourly_settings a ! h) else hourly_settings a ! h)" if "h < 24" for h
      using that assms by (simp add: merge_photo_bucket)
    have n: "photo_strict_date r = None \<longrightarrow> hourly_settings (merge_photo r a) = hourly_settings a"
      by (simp add: merge_photo_def)
    show ?thesis
      unfolding run using strict n by (auto simp: b add_to_bucket_def)
  qed
qed


subsection \<open>Sample photos\<close>

lemma init_agg_bucket:
  "h < 24 \<Longrightarrow>
   hourly_settings init_agg ! h = \<lparr>hs_apertures = [], hs_shutter_speeds = [], hs_isos = []\<rparr>"
  unfolding init_agg_def agg.simps by (rule nth_replicate)

lemma init_agg_dicts:
  "focal_lengths init_agg = []" "dates init_agg = []" "hours init_agg = []" "iso init_agg = []"
  "apertures init_agg = []" "shutter_speeds init_agg = []"
  by (simp_all add: init_agg_def)

lemma photo_strict_strict_date: "photo_strict_date photo_strict = Some new_year_8"
  unfolding photo_strict_def new_year_8_def by code_simp

lemma photo_strict_date: "photo_date photo_strict = Some new_year_8"
  unfolding photo_strict_def new_year_8_def by code_simp

lemma photo_strict_iso: "photo_iso photo_strict = Some 100"
  unfolding photo_strict_def by code_simp

lemma photo_strict_aperture: "photo_aperture photo_strict = Some (Fin (14 / 5))"
  unfolding photo_strict_def by code_simp

lemma photo_strict_shutter_speed: "photo_shutter_speed photo_strict = None"
  unfolding photo_strict_def by code_simp

lemma photo_strict_focal_length: "photo_focal_length photo_strict = None"
  unfolding photo_strict_def by code_simp

lemma photo_strict_text: "\<not> date_not_text photo_strict"
  unfolding photo_strict_def by code_simp

lemma photo_fallback_strict_date: "photo_strict_date photo_fallback = None"
  unfolding photo_fallback_def by code_simp

lemma photo_fallback_date: "photo_date photo_fallback = Some new_year_8"
  unfolding photo_fallback_def new_year_8_def by code_simp

lemma photo_fallback_text: "\<not> date_not_text photo_fallback"
  unfolding photo_fallback_def by code_simp

lemma new_year_8_fields: "dt_hour new_year_8 = 8" "date_of new_year_8 = (2023, 1, 1)"
  by (simp_all add: new_year_8_def date_of_def)

lemma dict_incr_empty: "dict_incr [] k = [(k, 1)]"
  by (simp add: dict_incr_def dict_get_def)

text \<open>
  The theorem at a photo dated \<open>2023:01:01 08:00:00\<close> and at one dated
  \<open>2023-01-01 08:00:00\<close>, which only the fallback chain parses.
\<close>

theorem hourly_bucket_strict_format_witness:
  "length (hourly_settings init_agg) = 24
   \<and> photo_strict_date photo_strict = Some new_year_8
   \<and> dt_hour new_year_8 = 8
   \<and> (\<exists>a'. process_photo photo_strict init_agg = Inr a'
          \<and> hs_isos (hourly_settings a' ! 8) = [100]
          \<and> hs_apertures (hourly_settings a' ! 8) = [Fin (14 / 5)]
          \<and> hs_shutter_speeds (hourly_settings a' ! 8) = []
          \<and> hs_isos (hourly_settings a' ! 9) = []
          \<and> dates a' = [((2023, 1, 1), 1)])
   \<and> photo_strict_date photo_fallback = None
   \<and> photo_date photo_fallback = Some new_year_8
   \<and> (\<exists>a'. process_photo photo_fallback init_agg = Inr a'
          \<and> dates a' = [((2023, 1, 1), 1)]
          \<and> hours a' = [(8, 1)]
          \<and> hourly_settings a' = hourly_settings init_agg)"
proof -
  have len: "length (hourly_settings init_agg) = 24" by (rule length_init_agg)
  obtain a1 where r1: "process_photo photo_strict init_agg = Inr a1"
    using process_photo_char[OF len, of photo_strict] photo_strict_text by simp
  obtain a2 where r2: "process_photo photo_fallback init_agg = Inr a2"
    using process_photo_char[OF len, of photo_fallback] photo_fallback_text by simp
  have t1: "hs_isos (hourly_settings a1 ! 8) = [100]
          \<and> hs_apertures (hourly_settings a1 ! 8) = [Fin (14 / 5)]
          \<and> hs_shutter_speeds (hourly_settings a1 ! 8) = []
          \<and> hs_isos (hourly_settings a1 ! 9) = []
          \<and> dates a1 = [((2023, 1, 1), 1)]"
    using hourly_bucket_strict_format[OF len, of photo_strict] r1
      init_agg_bucket[of 8] init_agg_bucket[of 9]
    by (simp add: opt_list_def incr_opt_def photo_strict_strict_date photo_strict_date
        photo_strict_iso photo_strict_aperture photo_strict_shutter_speed init_agg_dicts
        new_year_8_fields dict_incr_empty)
  have t2: "dates a2 = [((2023, 1, 1), 1)] \<and> hours a2 = [(8, 1)]
          \<and> hourly_settings a2 = hourly_settings init_agg"
    using hourly_bucket_strict_format[OF len, of photo_fallback] r2
    by (simp add: incr_opt_def photo_fallback_strict_date photo_fallback_date init_agg_dicts
        new_year_8_fields dict_incr_empty)
  show ?thesis
    using len r1 r2 t1 t2
    by (simp add: photo_strict_strict_date photo_fallback_strict_date photo_fallback_date
        new_year_8_fields)
qed

section \<open>A raw date that is not text\<close>

lemma photo_int_date_raises:
  "photo_raises [(''ISOSpeedRatings'', PInt 100), (''DateTimeOriginal'', PInt 20230101)]"
  by code_simp

lemma photo_iso_200:
  "\<not> photo_raises [(''ISOSpeedRatings'', PInt 200)]"
  "photo_iso [(''ISOSpeedRatings'', PInt 200)] = Some 200"
  by code_simp+

lemma process_iso_value_100: "process_iso_value (PInt 100) = Some 100"
  by code_simp

text \<open>
  C3.  The claim that no malformed value makes the run raise fails for a raw date that
  is not text.  \<open>try_parse_date\<close> guards against such a value, but the blocks for ISO,
  aperture and shutter speed hand it to \<open>strptime\<close> and catch \<open>ValueError\<close> only.  A
  photo with ISO 100 and the integer 20230101 as its date makes \<open>process_folder\<close> raise
  \<open>TypeError\<close>; the photo after it, which alone would be counted, is never processed.
\<close>

theorem process_folder_non_text_date:
  "process_folder
     [[(''ISOSpeedRatings'', PInt 100), (''DateTimeOriginal'', PInt 20230101)],
      [(''ISOSpeedRatings'', PInt 200)]] = Inl TypeError
   \<and> try_parse_date (PInt 20230101) = None
   \<and> process_iso_value (PInt 100) = Some 100
   \<and> (\<exists>a. process_folder [[(''ISOSpeedRatings'', PInt 200)]] = Inr a \<and> iso a = [(200, 1)])"
proof -
  let ?N = "[(''ISOSpeedRatings'', PInt 100), (''DateTimeOriginal'', PInt 20230101)]"
  let ?B = "[(''ISOSpeedRatings'', PInt 200)]"
  have a: "process_folder [?N, ?B] = Inl TypeError"
    using photo_int_date_raises by (simp add: process_folder_char)
  have t: "try_parse_date (PInt 20230101) = None" by (simp add: try_parse_date_def)
  have c: "process_folder [?B] = Inr (merge_photo ?B init_agg)"
    using photo_iso_200(1) by (simp add: process_folder_char)
  have "iso (merge_photo ?B init_agg) = [(200, 1)]"
    using photo_iso_200(2) by (simp add: incr_opt_def dict_incr_empty init_agg_dicts)
  with a t c process_iso_value_100 show ?thesis by simp
qed

section \<open>Zero counts as absent\<close>

lemma photo_values_nonzero:
  "photo_focal_length r = Some v \<Longrightarrow> v \<noteq> 0"
  "photo_iso r = Some i \<Longrightarrow> i \<noteq> 0"
  "photo_aperture r = Some x \<Longrightarrow> x \<noteq> Fin 0"
  "photo_shutter_speed r = Some x \<Longrightarrow> x \<noteq> Fin 0"
  by (auto simp: photo_focal_length_def photo_iso_def photo_aperture_def photo_shutter_speed_def
      split: option.splits if_splits)

lemma bucket_values_member:
  "v \<in> set (bucket_values g h rs) \<Longrightarrow> \<exists>r \<in> set rs. g r = Some v"
  by (auto simp: bucket_values_def opt_list_def split: if_splits option.splits)

lemma fold_keys:
  "fst ` set (iso (fold merge_photo rs a)) = fst ` set (iso a) \<union> {v. \<exists>r \<in> set rs. photo_iso r = Some v}"
  "fst ` set (apertures (fold merge_photo rs a)) =
     fst ` set (apertures a) \<union> {v. \<exists>r \<in> set rs. photo_aperture r = Some v}"
  "fst ` set (shutter_speeds (fold merge_photo rs a)) =
     fst ` set (shutter_speeds a) \<union> {v. \<exists>r \<in> set rs. photo_shutter_speed r = Some v}"
  by (induction rs arbitrary: a) (auto simp: keys_incr_opt)

lemma zero_is_absent_fold:
  assumes "a = fold merge_photo rs init_agg"
  shows "0 \<notin> set (focal_lengths a)"
    and "0 \<notin> fst ` set (iso a)"
    and "Fin 0 \<notin> fst ` set (apertures a)"
    and "Fin 0 \<notin> fst ` set (shutter_speeds a)"
    and "\<forall>b \<in> set (hourly_settings a).
           0 \<notin> set (hs_isos b) \<and> Fin 0 \<notin> set (hs_apertures b) \<and> Fin 0 \<notin> set (hs_shutter_speeds b)"
proof -
  show "0 \<notin> set (focal_lengths a)"
  proof
    assume "0 \<in> set (focal_lengths a)"
    then obtain r where "r \<in> set rs" "0 \<in> set (opt_list (photo_focal_length r))"
      by (auto simp: assms fold_focal_lengths init_agg_dicts)
    then have "photo_focal_length r = Some 0"
      by (cases "photo_focal_length r") (simp_all add: opt_list_def)
    with photo_values_nonzero(1) show False by blast
  qed
  show "0 \<notin> fst ` set (iso a)"
    unfolding assms fold_keys using photo_values_nonzero(2) by (auto simp: init_agg_dicts)
  show "Fin 0 \<notin> fst ` set (apertures a)"
    unfolding assms fold_keys using photo_values_nonzero(3) by (auto simp: init_agg_dicts)
  show "Fin 0 \<notin> fst ` set (shutter_speeds a)"
    unfolding assms fold_keys using photo_values_nonzero(4) by (auto simp: init_agg_dicts)
  show "\<forall>b \<in> set (hourly_settings a).
           0 \<notin> set (hs_isos b) \<and> Fin 0 \<notin> set (hs_apertures b) \<and> Fin 0 \<notin> set (hs_shutter_speeds b)"
  proof
    fix b assume "b \<in> set (hourly_settings a)"
    then obtain h where h: "h < length (hourly_settings a)" "b = hourly_settings a ! h"
      by (auto simp: in_set_conv_nth)
    then have h24: "h < 24" by (simp add: assms length_init_agg)
    then have hl: "h < length (hourly_settings init_agg)" by (simp add: length_init_agg)
    have "hs_isos b = bucket_values photo_iso h rs"
      "hs_apertures b = bucket_values photo_aperture h rs"
      "hs_shutter_speeds b = bucket_values photo_shutter_speed h rs"
      using fold_bucket[OF hl, of rs] h(2) init_agg_bucket[OF h24] by (simp_all add: assms)
    then show "0 \<notin> set (hs_isos b) \<and> Fin 0 \<notin> set (hs_apertures b) \<and> Fin 0 \<notin> set (hs_shutter_speeds b)"
      using bucket_values_member[of _ photo_iso h rs] bucket_values_member[of _ photo_aperture h rs]
        bucket_values_member[of _ photo_shutter_speed h rs] photo_values_nonzero
      by metis
  qed
qed

lemma shutter_rounds_to_zero:
  "process_shutter_speed (PTuple [PInt 1, PInt 32000]) = Some (Fin 0)"
  by code_simp

text \<open>
  C10.  A normalized value equal to zero is treated as absent.  After a run of
  \<open>process_folder\<close>, 0 is no element of the focal-length samples, no key of the ISO,
  aperture and shutter-speed maps and no element of any hourly bucket.  A photo whose
  focal length normalizes to 0 leaves the samples unchanged, and one whose aperture or
  shutter speed normalizes to 0.0 leaves its map and every bucket unchanged.  The
  shutter speed \<open>1/32000\<close> rounds to 0.0 at four decimal places.
\<close>

theorem zero_is_absent:
  "(process_folder rs = Inr a \<longrightarrow>
      0 \<notin> set (focal_lengths a)
      \<and> 0 \<notin> fst ` set (iso a)
      \<and> Fin 0 \<notin> fst ` set (apertures a)
      \<and> Fin 0 \<notin> fst ` set (shutter_speeds a)
      \<and> (\<forall>b \<in> set (hourly_settings a).
            0 \<notin> set (hs_isos b) \<and> Fin 0 \<notin> set (hs_apertures b)
            \<and> Fin 0 \<notin> set (hs_shutter_speeds b)))
   \<and> (map_of r ''FocalLength'' = Some raw \<and> process_focal_length raw = Some 0 \<longrightarrow>
        add_focal_length r a0 = a0)
   \<and> (map_of r ''FNumber'' = Some raw \<and> process_aperture raw = Some (Fin 0) \<longrightarrow>
        add_aperture r a0 = Inr a0)
   \<and> (map_of r ''ExposureTime'' = Some raw \<and> process_shutter_speed raw = Some (Fin 0) \<longrightarrow>
        add_shutter_speed r a0 = Inr a0)
   \<and> process_shutter_speed (PTuple [PInt 1, PInt 32000]) = Some (Fin 0)"
proof -
  have "process_folder rs = Inr a \<longrightarrow> a = fold merge_photo rs init_agg"
    by (simp add: process_folder_char)
  then show ?thesis
    using zero_is_absent_fold[of a rs] shutter_rounds_to_zero
    by (auto simp: add_focal_length_def add_aperture_def add_shutter_speed_def)
qed


lemma photo_zero_tags:
  "map_of photo_zero ''FocalLength'' = Some (PTuple [PInt 1, PInt 3])"
  "map_of photo_zero ''FNumber'' = Some (PTuple [PInt 1, PInt 100])"
  "map_of photo_zero ''ExposureTime'' = Some (PTuple [PInt 1, PInt 32000])"
  by (simp_all add: photo_zero_def)

lemma focal_length_rounds_to_zero: "process_focal_length (PTuple [PInt 1, PInt 3]) = Some 0"
  by code_simp

lemma aperture_rounds_to_zero: "process_aperture (PTuple [PInt 1, PInt 100]) = Some (Fin 0)"
  by code_simp

lemma photo_zero_date: "photo_date photo_zero = Some new_year_8"
  unfolding photo_zero_def new_year_8_def by code_simp

lemma photo_zero_strict_date: "photo_strict_date photo_zero = Some new_year_8"
  unfolding photo_zero_def new_year_8_def by code_simp

lemma photo_zero_text: "\<not> date_not_text photo_zero"
  unfolding photo_zero_def by code_simp

lemma photo_zero_values:
  "photo_focal_length photo_zero = None" "photo_iso photo_zero = None"
  "photo_aperture photo_zero = None" "photo_shutter_speed photo_zero = None"
  by (simp_all add: photo_focal_length_def photo_iso_def photo_aperture_def
      photo_shutter_speed_def photo_zero_tags focal_length_rounds_to_zero
      aperture_rounds_to_zero shutter_rounds_to_zero)
     (simp add: photo_zero_def)

text \<open>The theorem at a photo with three values that round to zero, followed by photo A.\<close>

theorem zero_is_absent_witness:
  "map_of photo_zero ''FocalLength'' = Some (PTuple [PInt 1, PInt 3])
   \<and> process_focal_length (PTuple [PInt 1, PInt 3]) = Some 0
   \<and> add_focal_length photo_zero init_agg = init_agg
   \<and> map_of photo_zero ''FNumber'' = Some (PTuple [PInt 1, PInt 100])
   \<and> process_aperture (PTuple [PInt 1, PInt 100]) = Some (Fin 0)
   \<and> add_aperture photo_zero init_agg = Inr init_agg
   \<and> map_of photo_zero ''ExposureTime'' = Some (PTuple [PInt 1, PInt 32000])
   \<and> process_shutter_speed (PTuple [PInt 1, PInt 32000]) = Some (Fin 0)
   \<and> add_shutter_speed photo_zero init_agg = Inr init_agg
   \<and> (\<exists>a. process_folder [photo_zero, photo_strict] = Inr a
         \<and> focal_lengths a = []
         \<and> apertures a = [(Fin (14 / 5), 1)]
         \<and> shutter_speeds a = []
         \<and> 0 \<notin> set (focal_lengths a)
         \<and> Fin 0 \<notin> fst ` set (apertures a)
         \<and> Fin 0 \<notin> set (hs_apertures (hourly_settings a ! 8)))"
proof -
  let ?raw1 = "PTuple [PInt 1, PInt 3]"
  let ?raw2 = "PTuple [PInt 1, PInt 100]"
  let ?raw3 = "PTuple [PInt 1, PInt 32000]"
  define a where "a = fold merge_photo [photo_zero, photo_strict] init_agg"
  have nr: "\<not> photo_raises photo_zero" "\<not> photo_raises photo_strict"
    by (simp_all add: photo_raises_def photo_zero_text photo_strict_text)
  have run: "process_folder [photo_zero, photo_strict] = Inr a"
    using nr by (simp add: process_folder_char a_def)
  have f: "focal_lengths a = []" "apertures a = [(Fin (14 / 5), 1)]" "shutter_speeds a = []"
    by (simp_all add: a_def photo_zero_values photo_strict_focal_length photo_strict_aperture
        photo_strict_shutter_speed opt_list_def incr_opt_def init_agg_dicts dict_incr_empty)
  have len: "length (hourly_settings a) = 24" by (simp add: a_def length_init_agg)
  have z: "0 \<notin> set (focal_lengths a) \<and> Fin 0 \<notin> fst ` set (apertures a)
      \<and> (\<forall>b \<in> set (hourly_settings a). Fin 0 \<notin> set (hs_apertures b))"
    using zero_is_absent[of "[photo_zero, photo_strict]" a photo_zero ?raw1 init_agg] run by simp
  from len have "hourly_settings a ! 8 \<in> set (hourly_settings a)" by simp
  with z have b8: "Fin 0 \<notin> set (hs_apertures (hourly_settings a ! 8))" by blast
  have s1: "add_focal_length photo_zero init_agg = init_agg"
    using zero_is_absent[of "[]" init_agg photo_zero ?raw1 init_agg]
    by (simp add: photo_zero_tags focal_length_rounds_to_zero)
  have s2: "add_aperture photo_zero init_agg = Inr init_agg"
    using zero_is_absent[of "[]" init_agg photo_zero ?raw2 init_agg]
    by (simp add: photo_zero_tags aperture_rounds_to_zero)
  have s3: "add_shutter_speed photo_zero init_agg = Inr init_agg"
    using zero_is_absent[of "[]" init_agg photo_zero ?raw3 init_agg]
    by (simp add: photo_zero_tags shutter_rounds_to_zero)
  show ?thesis
    using run f z b8 s1 s2 s3
    by (simp add: photo_zero_tags focal_length_rounds_to_zero aperture_rounds_to_zero
        shutter_rounds_to_zero)
qed

subsection \<open>Total and daily average\<close>

lemma analyze_folder_char:
  "analyze_folder rs =
     (if list_ex photo_raises rs then Inl TypeError
      else Inr (fold merge_photo rs init_agg,
                \<lparr>sm_total_photos = total_photos (fold merge_photo rs init_agg),
                 sm_focal_length_median =
                   spec_focal_length_median (focal_lengths (fold merge_photo rs init_agg)),
                 sm_daily_average = daily_average (fold merge_photo rs init_agg)\<rparr>))"
  by (simp add: analyze_folder_def process_folder_char focal_length_median_refines py_bind_def)





lemma photo_next_day_date: "photo_date photo_next_day = Some next_day_930"
  unfolding photo_next_day_def next_day_930_def by code_simp

lemma next_day_930_date: "date_of next_day_930 = (2023, 1, 2)"
  by (simp add: next_day_930_def date_of_def)

lemma photo_next_day_text: "\<not> date_not_text photo_next_day"
  unfolding photo_next_day_def by code_simp


section \<open>Order independence\<close>

lemma length_filter_mset_cong:
  assumes "mset xs = mset ys"
  shows "length (filter P xs) = length (filter P ys)"
proof -
  have "mset (filter P xs) = mset (filter P ys)"
    using assms by simp
  then show ?thesis by (rule mset_eq_length)
qed

lemma mset_concat_map: "mset (concat (map f xs)) = (\<Sum>x \<in># mset xs. mset (f x))"
  by (induction xs) simp_all

lemma mset_concat_map_cong:
  assumes "mset xs = mset ys"
  shows "mset (concat (map f xs)) = mset (concat (map f ys))"
  by (simp add: mset_concat_map assms)

lemma sort_filter_mset_cong:
  fixes xs ys :: "int list"
  assumes "mset xs = mset ys"
  shows "sort (filter P xs) = sort (filter P ys)"
proof -
  have "mset (sort (filter P ys)) = mset (filter P xs)" using assms by simp
  then show ?thesis by (rule properties_for_sort) simp
qed

lemma spec_median_mset_cong:
  assumes "mset xs = mset ys"
  shows "spec_focal_length_median xs = spec_focal_length_median ys"
  unfolding spec_focal_length_median_def sort_filter_mset_cong[OF assms] ..

lemma freq_ok_fold_init:
  "freq_ok (dates (fold merge_photo rs init_agg))"
  "freq_ok (hours (fold merge_photo rs init_agg))"
  "freq_ok (iso (fold merge_photo rs init_agg))"
  "freq_ok (apertures (fold merge_photo rs init_agg))"
  "freq_ok (shutter_speeds (fold merge_photo rs init_agg))"
proof -
  show "freq_ok (dates (fold merge_photo rs init_agg))"
    by (rule fold_freq_ok) (simp add: init_agg_dicts freq_ok_def)
  show "freq_ok (hours (fold merge_photo rs init_agg))"
    by (rule fold_freq_ok) (simp add: init_agg_dicts freq_ok_def)
  show "freq_ok (iso (fold merge_photo rs init_agg))"
    by (rule fold_freq_ok) (simp add: init_agg_dicts freq_ok_def)
  show "freq_ok (apertures (fold merge_photo rs init_agg))"
    by (rule fold_freq_ok) (simp add: init_agg_dicts freq_ok_def)
  show "freq_ok (shutter_speeds (fold merge_photo rs init_agg))"
    by (rule fold_freq_ok) (simp add: init_agg_dicts freq_ok_def)
qed

lemma dict_count_init:
  "dict_count (dates init_agg) d = 0" "dict_count (hours init_agg) h = 0"
  "dict_count (iso init_agg) i = 0" "dict_count (apertures init_agg) x = 0"
  "dict_count (shutter_speeds init_agg) x = 0"
  by (simp_all add: init_agg_dicts dict_count_def dict_get_def)

lemma fold_maps_cong:
  assumes "mset rs = mset rs'"
  shows "map_of (dates (fold merge_photo rs init_agg)) = map_of (dates (fold merge_photo rs' init_agg))"
    and "map_of (hours (fold merge_photo rs init_agg)) = map_of (hours (fold merge_photo rs' init_agg))"
    and "map_of (iso (fold merge_photo rs init_agg)) = map_of (iso (fold merge_photo rs' init_agg))"
    and "map_of (apertures (fold merge_photo rs init_agg)) =
         map_of (apertures (fold merge_photo rs' init_agg))"
    and "map_of (shutter_speeds (fold merge_photo rs init_agg)) =
         map_of (shutter_speeds (fold merge_photo rs' init_agg))"
  by (rule ext,
      simp add: freq_ok_map_of freq_ok_fold_init fold_dict_count dict_count_init
        length_filter_mset_cong[OF assms])+

lemma fold_buckets_cong:
  assumes "mset rs = mset rs'" "h < 24"
  shows "mset (hs_isos (hourly_settings (fold merge_photo rs init_agg) ! h)) =
         mset (hs_isos (hourly_settings (fold merge_photo rs' init_agg) ! h))"
    and "mset (hs_apertures (hourly_settings (fold merge_photo rs init_agg) ! h)) =
         mset (hs_apertures (hourly_settings (fold merge_photo rs' init_agg) ! h))"
    and "mset (hs_shutter_speeds (hourly_settings (fold merge_photo rs init_agg) ! h)) =
         mset (hs_shutter_speeds (hourly_settings (fold merge_photo rs' init_agg) ! h))"
proof -
  from assms(2) have hl: "h < length (hourly_settings init_agg)" by (simp add: length_init_agg)
  show "mset (hs_isos (hourly_settings (fold merge_photo rs init_agg) ! h)) =
         mset (hs_isos (hourly_settings (fold merge_photo rs' init_agg) ! h))"
    unfolding fold_bucket[OF hl] bucket_values_def
    by (simp add: mset_concat_map_cong[OF assms(1)])
  show "mset (hs_apertures (hourly_settings (fold merge_photo rs init_agg) ! h)) =
         mset (hs_apertures (hourly_settings (fold merge_photo rs' init_agg) ! h))"
    unfolding fold_bucket[OF hl] bucket_values_def
    by (simp add: mset_concat_map_cong[OF assms(1)])
  show "mset (hs_shutter_speeds (hourly_settings (fold merge_photo rs init_agg) ! h)) =
         mset (hs_shutter_speeds (hourly_settings (fold merge_photo rs' init_agg) ! h))"
    unfolding fold_bucket[OF hl] bucket_values_def
    by (simp add: mset_concat_map_cong[OF assms(1)])
qed

lemma fold_summary_cong:
  assumes "mset rs = mset rs'"
  shows "total_photos (fold merge_photo rs init_agg) = total_photos (fold merge_photo rs' init_agg)"
    and "spec_focal_length_median (focal_lengths (fold merge_photo rs init_agg)) =
         spec_focal_length_median (focal_lengths (fold merge_photo rs' init_agg))"
    and "daily_average (fold merge_photo rs init_agg) = daily_average (fold merge_photo rs' init_agg)"
proof -
  let ?a = "fold merge_photo rs init_agg" and ?a' = "fold merge_photo rs' init_agg"
  show t: "total_photos ?a = total_photos ?a'"
    by (simp add: total_photos_def fold_sum_dates length_filter_mset_cong[OF assms])
  show "spec_focal_length_median (focal_lengths ?a) = spec_focal_length_median (focal_lengths ?a')"
    by (rule spec_median_mset_cong)
       (simp add: fold_focal_lengths mset_concat_map_cong[OF assms])
  have s: "set rs = set rs'" using assms by (rule mset_eq_setD)
  have "distinct (map fst (dates ?a))" "distinct (map fst (dates ?a'))"
    using freq_ok_fold_init(1) by (simp_all add: freq_ok_def)
  then have "length (dates ?a) = card (fst ` set (dates ?a))"
    and "length (dates ?a') = card (fst ` set (dates ?a'))"
    using distinct_card[of "map fst (dates ?a)"] distinct_card[of "map fst (dates ?a')"]
    by simp_all
  then have "length (dates ?a) = length (dates ?a')"
    by (simp add: fold_keys_dates s)
  with t show "daily_average ?a = daily_average ?a'"
    by (simp add: daily_average_def)
qed

text \<open>
  C1.  Aggregation does not depend on the order of the photos.  For two sequences of
  photo records that are permutations of each other, either \<open>analyze_folder\<close> raises the
  same exception on both, or both runs give the same date, hour, ISO, aperture and
  shutter-speed frequency maps, hourly buckets with the same contents up to order, and
  the same summary statistics (total photos, median focal length, daily average).
\<close>

theorem aggregation_order_independent:
  assumes "mset rs = mset rs'"
  shows "(case (analyze_folder rs, analyze_folder rs') of
            (Inr (a, sm), Inr (a', sm')) \<Rightarrow>
              map_of (dates a) = map_of (dates a')
              \<and> map_of (hours a) = map_of (hours a')
              \<and> map_of (iso a) = map_of (iso a')
              \<and> map_of (apertures a) = map_of (apertures a')
              \<and> map_of (shutter_speeds a) = map_of (shutter_speeds a')
              \<and> (\<forall>h < 24.
                    mset (hs_isos (hourly_settings a ! h)) = mset (hs_isos (hourly_settings a' ! h))
                    \<and> mset (hs_apertures (hourly_settings a ! h)) =
                        mset (hs_apertures (hourly_settings a' ! h))
                    \<and> mset (hs_shutter_speeds (hourly_settings a ! h)) =
                        mset (hs_shutter_speeds (hourly_settings a' ! h)))
              \<and> sm = sm'
          | (Inl e, Inl e') \<Rightarrow> e = e'
          | (Inl e, Inr x) \<Rightarrow> False
          | (Inr x, Inl e') \<Rightarrow> False)"
proof -
  have "set rs = set rs'" using assms by (rule mset_eq_setD)
  then have r: "list_ex photo_raises rs \<longleftrightarrow> list_ex photo_raises rs'"
    by (simp add: list_ex_iff)
  show ?thesis
  proof (cases "list_ex photo_raises rs")
    case True
    with r show ?thesis by (simp add: analyze_folder_char)
  next
    case False
    with r show ?thesis
      using fold_maps_cong[OF assms] fold_buckets_cong[OF assms] fold_summary_cong[OF assms]
      by (simp add: analyze_folder_char)
  qed
qed


text \<open>
  The theorem at three photos in two orders: the date maps are built in different
  orders and are the same map.
\<close>

theorem aggregation_order_independent_witness:
  "mset [photo_strict, photo_next_day, photo_fallback] =
     mset [photo_next_day, photo_fallback, photo_strict]
   \<and> (\<exists>a sm a' sm'.
         analyze_folder [photo_strict, photo_next_day, photo_fallback] = Inr (a, sm)
         \<and> analyze_folder [photo_next_day, photo_fallback, photo_strict] = Inr (a', sm')
         \<and> dates a = [((2023, 1, 1), 2), ((2023, 1, 2), 1)]
         \<and> dates a' = [((2023, 1, 2), 1), ((2023, 1, 1), 2)]
         \<and> map_of (dates a) = map_of (dates a')
         \<and> map_of (iso a) = map_of (iso a')
         \<and> mset (hs_isos (hourly_settings a ! 8)) = mset (hs_isos (hourly_settings a' ! 8))
         \<and> sm = sm')"
proof -
  let ?rs = "[photo_strict, photo_next_day, photo_fallback]"
  let ?rs' = "[photo_next_day, photo_fallback, photo_strict]"
  have m: "mset ?rs = mset ?rs'" by simp
  have nr: "\<not> photo_raises photo_strict" "\<not> photo_raises photo_fallback"
    "\<not> photo_raises photo_next_day"
    by (simp_all add: photo_raises_def photo_strict_text photo_fallback_text photo_next_day_text)
  obtain a sm where 1: "analyze_folder ?rs = Inr (a, sm)"
    using nr by (simp add: analyze_folder_char)
  obtain a' sm' where 2: "analyze_folder ?rs' = Inr (a', sm')"
    using nr by (simp add: analyze_folder_char)
  have a: "a = fold merge_photo ?rs init_agg" and a': "a' = fold merge_photo ?rs' init_agg"
    using 1 2 nr by (simp_all add: analyze_folder_char)
  have d: "dates a = [((2023, 1, 1), 2), ((2023, 1, 2), 1)]"
    by (simp add: a photo_strict_date photo_fallback_date photo_next_day_date
        new_year_8_fields next_day_930_date incr_opt_def init_agg_dicts dict_incr_def dict_get_def)
  have d': "dates a' = [((2023, 1, 2), 1), ((2023, 1, 1), 2)]"
    by (simp add: a' photo_strict_date photo_fallback_date photo_next_day_date
        new_year_8_fields next_day_930_date incr_opt_def init_agg_dicts dict_incr_def dict_get_def)
  have t: "map_of (dates a) = map_of (dates a') \<and> map_of (iso a) = map_of (iso a')
         \<and> mset (hs_isos (hourly_settings a ! 8)) = mset (hs_isos (hourly_settings a' ! 8))
         \<and> sm = sm'"
    using aggregation_order_independent[OF m] 1 2 by simp
  show ?thesis using m 1 2 d d' t by blast
qed

section \<open>The histogram binner\<close>





lemma length_bin_edges [simp]: "length (bin_edges lo hi n) = Suc n"
  by (simp add: bin_edges_def)













end
